(* ===== verification/Prelude.thy ===== *)
theory Prelude
  imports Main "HOL-Library.Word" "HOL-Library.List_Lexorder"
begin

text \<open>
  What every component of the DNS server shares: the machine types, the three outcomes of a
  fallible Rust call (a value, an error value, a panic), the byte reads of the wire format, the
  parser state (the offset into the packet, the \<open>offset: &mut usize\<close> of every \<open>parse\<close>
  function), and the generic lemmas on them. Sizes and offsets (\<open>usize\<close>) are natural
  numbers: they index a slice, whose length never reaches the bounds of the type.
\<close>

unbundle bit_operations_syntax

section \<open>Machine types and outcomes\<close>

type_synonym u8 = "8 word"
type_synonym u16 = "16 word"
type_synonym u32 = "32 word"
type_synonym u64 = "64 word"
type_synonym bytes = "u8 list"

text \<open>\<open>Result<T, E>\<close>, with the third outcome of a Rust call, a panic, made a value.\<close>

datatype ('a, 'e) res = Ok 'a | Err 'e | Panic

fun res_bind :: "('a, 'e) res \<Rightarrow> ('a \<Rightarrow> ('b, 'e) res) \<Rightarrow> ('b, 'e) res" where
  "res_bind (Ok a) f = f a"
| "res_bind (Err e) f = Err e"
| "res_bind Panic f = Panic"

fun map_err :: "('e \<Rightarrow> 'f) \<Rightarrow> ('a, 'e) res \<Rightarrow> ('a, 'f) res" where
  "map_err g (Ok a) = Ok a"
| "map_err g (Err e) = Err (g e)"
| "map_err g Panic = Panic"

definition is_ok :: "('a, 'e) res \<Rightarrow> bool" where
  "is_ok r = (case r of Ok _ \<Rightarrow> True | _ \<Rightarrow> False)"

section \<open>Big-endian integers\<close>

definition u16_from_be_bytes :: "u8 \<Rightarrow> u8 \<Rightarrow> u16" where
  "u16_from_be_bytes a b = push_bit 8 (ucast a) OR ucast b"

definition u32_from_be_bytes :: "u8 \<Rightarrow> u8 \<Rightarrow> u8 \<Rightarrow> u8 \<Rightarrow> u32" where
  "u32_from_be_bytes a b c d =
     push_bit 24 (ucast a) OR push_bit 16 (ucast b) OR push_bit 8 (ucast c) OR ucast d"

definition u16_to_be_bytes :: "u16 \<Rightarrow> bytes" where
  "u16_to_be_bytes w = [ucast (drop_bit 8 w), ucast w]"

definition u32_to_be_bytes :: "u32 \<Rightarrow> bytes" where
  "u32_to_be_bytes w =
     [ucast (drop_bit 24 w), ucast (drop_bit 16 w), ucast (drop_bit 8 w), ucast w]"

section \<open>Indexing and slicing\<close>

text \<open>An index or a slice out of range panics: it is the third outcome, not a default value.\<close>

definition u8_at :: "bytes \<Rightarrow> nat \<Rightarrow> (u8, 'e) res" where
  "u8_at data i = (if i < length data then Ok (data ! i) else Panic)"

definition u16_at :: "bytes \<Rightarrow> nat \<Rightarrow> (u16, 'e) res" where
  "u16_at data i =
     res_bind (u8_at data i) (\<lambda>a. res_bind (u8_at data (i + 1)) (\<lambda>b.
     Ok (u16_from_be_bytes a b)))"

definition u32_at :: "bytes \<Rightarrow> nat \<Rightarrow> (u32, 'e) res" where
  "u32_at data i =
     res_bind (u8_at data i) (\<lambda>a. res_bind (u8_at data (i + 1)) (\<lambda>b.
     res_bind (u8_at data (i + 2)) (\<lambda>c. res_bind (u8_at data (i + 3)) (\<lambda>d.
     Ok (u32_from_be_bytes a b c d)))))"

definition slice :: "nat \<Rightarrow> nat \<Rightarrow> 'a list \<Rightarrow> 'a list" where
  "slice a b xs = take (b - a) (drop a xs)"

definition slice_at :: "'a list \<Rightarrow> nat \<Rightarrow> nat \<Rightarrow> ('a list, 'e) res" where
  "slice_at data a b = (if a \<le> b \<and> b \<le> length data then Ok (slice a b data) else Panic)"

section \<open>Parsers over a packet\<close>

text \<open>
  A \<open>parse\<close> function reads the packet and moves the offset it was given. The offset is
  returned with every outcome, because a caller that catches an error (\<open>DnsMessage::parse\<close>
  does, record by record) goes on from the offset the failed call left behind.
\<close>

type_synonym ('a, 'e) parser = "nat \<Rightarrow> ('a, 'e) res \<times> nat"

definition retP :: "'a \<Rightarrow> ('a, 'e) parser" where
  "retP a = (\<lambda>off. (Ok a, off))"

definition failP :: "'e \<Rightarrow> ('a, 'e) parser" where
  "failP e = (\<lambda>off. (Err e, off))"

definition bindP :: "('a, 'e) parser \<Rightarrow> ('a \<Rightarrow> ('b, 'e) parser) \<Rightarrow> ('b, 'e) parser" where
  "bindP p f = (\<lambda>off. case p off of
     (Ok a, off') \<Rightarrow> f a off' | (Err e, off') \<Rightarrow> (Err e, off') | (Panic, off') \<Rightarrow> (Panic, off'))"

text \<open>\<open>if cond { return Err(e) }\<close>, where the condition may read the offset.\<close>

definition rejectP :: "(nat \<Rightarrow> bool) \<Rightarrow> 'e \<Rightarrow> (unit, 'e) parser" where
  "rejectP c e = (\<lambda>off. (if c off then Err e else Ok (), off))"

text \<open>\<open>data[*offset + k]\<close> and the big-endian reads there; the offset stays.\<close>

definition rd8 :: "bytes \<Rightarrow> nat \<Rightarrow> (u8, 'e) parser" where
  "rd8 data k = (\<lambda>off. (u8_at data (off + k), off))"

definition rd16 :: "bytes \<Rightarrow> nat \<Rightarrow> (u16, 'e) parser" where
  "rd16 data k = (\<lambda>off. (u16_at data (off + k), off))"

definition rd32 :: "bytes \<Rightarrow> nat \<Rightarrow> (u32, 'e) parser" where
  "rd32 data k = (\<lambda>off. (u32_at data (off + k), off))"

text \<open>\<open>data[*offset + k..end]\<close>, \<open>*offset += n\<close> and \<open>*offset = end\<close>.\<close>

definition rd_to :: "bytes \<Rightarrow> nat \<Rightarrow> nat \<Rightarrow> (bytes, 'e) parser" where
  "rd_to data k end = (\<lambda>off. (slice_at data (off + k) end, off))"

definition rd_bytes :: "bytes \<Rightarrow> nat \<Rightarrow> (bytes, 'e) parser" where
  "rd_bytes data n = (\<lambda>off. (slice_at data off (off + n), off))"

text \<open>A pure computation that looks at the offset.\<close>

definition liftP :: "(nat \<Rightarrow> ('a, 'e) res) \<Rightarrow> ('a, 'e) parser" where
  "liftP f = (\<lambda>off. (f off, off))"

definition advP :: "nat \<Rightarrow> (unit, 'e) parser" where
  "advP n = (\<lambda>off. (Ok (), off + n))"

definition seekP :: "nat \<Rightarrow> (unit, 'e) parser" where
  "seekP n = (\<lambda>off. (Ok (), n))"

text \<open>
  The weakest precondition of a parser at an offset: what has to hold for the outcome and the
  offset left behind to satisfy \<open>Q\<close>. The rules below push it through every primitive.
\<close>

definition wpP :: "('a, 'e) parser \<Rightarrow> nat \<Rightarrow> (('a, 'e) res \<Rightarrow> nat \<Rightarrow> bool) \<Rightarrow> bool" where
  "wpP p off Q = (case p off of (r, off') \<Rightarrow> Q r off')"

section \<open>Generic lemmas\<close>

named_theorems parse_simps \<open>evaluation of parsers at a given offset\<close>

lemma res_bind_Ok_iff [simp]:
  "res_bind r f = Ok b \<longleftrightarrow> (\<exists>a. r = Ok a \<and> f a = Ok b)"
  by (cases r) auto

lemma map_err_Ok_iff [simp]: "map_err g r = Ok a \<longleftrightarrow> r = Ok a"
  by (cases r) auto

lemma is_ok_simps [simp]: "is_ok (Ok a)" "\<not> is_ok (Err e)" "\<not> is_ok Panic"
  by (simp_all add: is_ok_def)

lemma u16_to_be_bytes_length [simp]: "length (u16_to_be_bytes w) = 2"
  by (simp add: u16_to_be_bytes_def)

lemma u32_to_be_bytes_length [simp]: "length (u32_to_be_bytes w) = 4"
  by (simp add: u32_to_be_bytes_def)

lemma u16_be_roundtrip [simp]: "u16_from_be_bytes (ucast (drop_bit 8 w)) (ucast w) = w"
  unfolding u16_from_be_bytes_def
  by (rule bit_word_eqI) (auto simp: bit_simps)

lemma u32_be_roundtrip [simp]:
  "u32_from_be_bytes (ucast (drop_bit 24 w)) (ucast (drop_bit 16 w)) (ucast (drop_bit 8 w))
     (ucast w) = w"
proof (unfold u32_from_be_bytes_def, rule bit_word_eqI)
  fix n assume "n < LENGTH(32)"
  then consider "n < 8" | "8 \<le> n" "n < 16" | "16 \<le> n" "n < 24" | "24 \<le> n" "n < 32"
    by fastforce
  then show "bit (push_bit 24 (ucast (ucast (drop_bit 24 w) :: u8) :: u32) OR
      push_bit 16 (ucast (ucast (drop_bit 16 w) :: u8)) OR
      push_bit 8 (ucast (ucast (drop_bit 8 w) :: u8)) OR ucast (ucast w :: u8)) n = bit w n"
    by cases (auto simp: bit_simps less_diff_conv2)
qed

lemma bit_u8_high [simp]: "8 \<le> n \<Longrightarrow> \<not> bit (w :: u8) n"
  using bit_imp_le_length [of w n] by fastforce

lemma u16_be_bytes_roundtrip [simp]:
  "u16_to_be_bytes (u16_from_be_bytes a b) = [a, b]"
  unfolding u16_to_be_bytes_def u16_from_be_bytes_def
  by (auto intro!: bit_word_eqI simp: bit_simps)

lemma u32_be_bytes_roundtrip [simp]:
  "u32_to_be_bytes (u32_from_be_bytes a b c d) = [a, b, c, d]"
  unfolding u32_to_be_bytes_def u32_from_be_bytes_def
  by (auto intro!: bit_word_eqI simp: bit_simps)

subsection \<open>Reads in a suffix of the packet\<close>

lemma u8_at_drop: "off \<le> length data \<Longrightarrow> u8_at data (off + k) = u8_at (drop off data) k"
  by (auto simp: u8_at_def)

lemma u16_at_drop: "off \<le> length data \<Longrightarrow> u16_at data (off + k) = u16_at (drop off data) k"
  unfolding u16_at_def by (simp only: add.assoc u8_at_drop)

lemma u32_at_drop: "off \<le> length data \<Longrightarrow> u32_at data (off + k) = u32_at (drop off data) k"
  unfolding u32_at_def by (simp only: add.assoc u8_at_drop)

lemma slice_drop: "slice (off + a) (off + b) xs = slice a b (drop off xs)"
  by (simp add: slice_def add.commute)

lemma slice_at_drop:
  "off \<le> length data \<Longrightarrow> slice_at data (off + a) (off + b) = slice_at (drop off data) a b"
  by (auto simp: slice_at_def slice_drop)

lemma u8_at_skip [simp]: "length xs \<le> k \<Longrightarrow> u8_at (xs @ ys) k = u8_at ys (k - length xs)"
  by (auto simp: u8_at_def nth_append)

lemma u8_at_cons [simp]: "u8_at (x # xs) 0 = Ok x" "0 < k \<Longrightarrow> u8_at (x # xs) k = u8_at xs (k - 1)"
  by (auto simp: u8_at_def)

lemma u16_at_skip [simp]: "length xs \<le> k \<Longrightarrow> u16_at (xs @ ys) k = u16_at ys (k - length xs)"
  by (simp add: u16_at_def Suc_diff_le)

lemma u32_at_skip [simp]: "length xs \<le> k \<Longrightarrow> u32_at (xs @ ys) k = u32_at ys (k - length xs)"
  by (simp add: u32_at_def Suc_diff_le eval_nat_numeral)

lemma u16_at_cons [simp]: "0 < k \<Longrightarrow> u16_at (x # ys) k = u16_at ys (k - 1)"
  using u16_at_skip [of "[x]" k ys] by simp

lemma u32_at_cons [simp]: "0 < k \<Longrightarrow> u32_at (x # ys) k = u32_at ys (k - 1)"
  using u32_at_skip [of "[x]" k ys] by simp

lemma u16_at_be [simp]: "u16_at (u16_to_be_bytes w @ ys) 0 = Ok w"
  by (simp add: u16_at_def u16_to_be_bytes_def)

lemma u32_at_be [simp]: "u32_at (u32_to_be_bytes w @ ys) 0 = Ok w"
  by (simp add: u32_at_def u32_to_be_bytes_def)

lemma slice_at_prefix [simp]: "slice_at (xs @ ys) 0 (length xs) = Ok xs"
  by (simp add: slice_at_def slice_def)

lemma slice_at_skip [simp]:
  "length xs \<le> a \<Longrightarrow> length xs \<le> b \<Longrightarrow>
   slice_at (xs @ ys) a b = slice_at ys (a - length xs) (b - length xs)"
  by (auto simp: slice_at_def slice_def)

lemma length_slice [simp]: "b \<le> length xs \<Longrightarrow> length (slice a b xs) = b - a"
  by (simp add: slice_def)

lemma drop_enc_length:
  "off \<le> length data \<Longrightarrow> drop off data = xs @ ys \<Longrightarrow> off + length xs \<le> length data"
  by (metis add_le_cancel_left diff_add_inverse2 le_add1 le_add_diff_inverse length_append length_drop)

lemma drop_plus: "drop (off + n) data = drop n (drop off data)"
  by (simp add: add.commute)

lemma drop_enc_step: "drop off data = xs @ ys \<Longrightarrow> drop (off + length xs) data = ys"
  by (metis add.commute append_eq_conv_conj drop_drop)

subsection \<open>Parsers\<close>

lemma bindP_run [parse_simps]:
  "bindP p f off = (case p off of
     (Ok a, off') \<Rightarrow> f a off' | (Err e, off') \<Rightarrow> (Err e, off') | (Panic, off') \<Rightarrow> (Panic, off'))"
  by (simp add: bindP_def)

lemma prim_run [parse_simps]:
  "retP a off = (Ok a, off)"
  "failP e off = (Err e, off)"
  "rejectP c e off = (if c off then Err e else Ok (), off)"
  "advP n off = (Ok (), off + n)"
  "seekP n off = (Ok (), n)"
  "liftP g off = (g off, off)"
  by (simp_all add: retP_def failP_def rejectP_def advP_def seekP_def liftP_def)

lemma rd_run [parse_simps]:
  "off \<le> length data \<Longrightarrow> rd8 data k off = (u8_at (drop off data) k, off)"
  "off \<le> length data \<Longrightarrow> rd16 data k off = (u16_at (drop off data) k, off)"
  "off \<le> length data \<Longrightarrow> rd32 data k off = (u32_at (drop off data) k, off)"
  "off \<le> length data \<Longrightarrow> rd_to data k (off + n) off = (slice_at (drop off data) k n, off)"
  "off \<le> length data \<Longrightarrow> rd_bytes data n off = (slice_at (drop off data) 0 n, off)"
  using slice_at_drop [of off data 0 n]
  by (simp_all add: rd8_def rd16_def rd32_def rd_to_def rd_bytes_def u8_at_drop u16_at_drop
      u32_at_drop slice_at_drop)

subsection \<open>Weakest preconditions\<close>

named_theorems wp_simps \<open>weakest preconditions of the parser primitives\<close>

lemma wp_bind [wp_simps]:
  "wpP (bindP p f) off Q = wpP p off (\<lambda>r off'. case r of
     Ok a \<Rightarrow> wpP (f a) off' Q | Err e \<Rightarrow> Q (Err e) off' | Panic \<Rightarrow> Q Panic off')"
  by (auto simp: wpP_def bindP_def split: prod.splits res.splits)

lemma wp_ret [wp_simps]: "wpP (retP a) off Q = Q (Ok a) off"
  by (simp add: wpP_def retP_def)

lemma wp_fail [wp_simps]: "wpP (failP e) off Q = Q (Err e) off"
  by (simp add: wpP_def failP_def)

lemma wp_reject [wp_simps]:
  "wpP (rejectP c e) off Q = (if c off then Q (Err e) off else Q (Ok ()) off)"
  by (simp add: wpP_def rejectP_def)

lemma wp_adv [wp_simps]: "wpP (advP n) off Q = Q (Ok ()) (off + n)"
  by (simp add: wpP_def advP_def)

lemma wp_seek [wp_simps]: "wpP (seekP n) off Q = Q (Ok ()) n"
  by (simp add: wpP_def seekP_def)

lemma wp_rd8 [wp_simps]:
  "wpP (rd8 data k) off Q =
     (if off + k < length data then Q (Ok (data ! (off + k))) off else Q Panic off)"
  by (simp add: wpP_def rd8_def u8_at_def)

lemma wp_rd16 [wp_simps]:
  "wpP (rd16 data k) off Q =
     (if off + k + 1 < length data
      then Q (Ok (u16_from_be_bytes (data ! (off + k)) (data ! (off + k + 1)))) off
      else Q Panic off)"
  by (simp add: wpP_def rd16_def u16_at_def u8_at_def)

lemma wp_rd32 [wp_simps]:
  "wpP (rd32 data k) off Q =
     (if off + k + 3 < length data
      then Q (Ok (u32_from_be_bytes (data ! (off + k)) (data ! (off + k + 1))
             (data ! (off + k + 2)) (data ! (off + k + 3)))) off
      else Q Panic off)"
  by (simp add: wpP_def rd32_def u32_at_def u8_at_def)

lemma wp_rd_to [wp_simps]:
  "wpP (rd_to data k e) off Q =
     (if off + k \<le> e \<and> e \<le> length data then Q (Ok (slice (off + k) e data)) off else Q Panic off)"
  by (simp add: wpP_def rd_to_def slice_at_def)

lemma wp_rd_bytes [wp_simps]:
  "wpP (rd_bytes data n) off Q =
     (if off + n \<le> length data then Q (Ok (slice off (off + n) data)) off else Q Panic off)"
  by (simp add: wpP_def rd_bytes_def slice_at_def)

lemma wp_lift [wp_simps]: "wpP (liftP g) off Q = Q (g off) off"
  by (simp add: wpP_def liftP_def)

lemma wp_if [wp_simps]: "wpP (if c then p else q) off Q = (if c then wpP p off Q else wpP q off Q)"
  by simp

lemma wp_mono: "wpP p off Q \<Longrightarrow> (\<And>r off'. Q r off' \<Longrightarrow> Q' r off') \<Longrightarrow> wpP p off Q'"
  by (auto simp: wpP_def split: prod.splits)

lemma wpD: "wpP p off Q \<Longrightarrow> p off = (r, off') \<Longrightarrow> Q r off'"
  by (simp add: wpP_def)

subsection \<open>The two bit tests of a compression pointer\<close>

lemma nat_and_192: "(n::nat) AND 0xC0 = push_bit 6 (take_bit 2 (drop_bit 6 n))"
proof -
  have e: "(0xC0::nat) = push_bit 6 (mask 2)" by (simp add: mask_eq_exp_minus_1 push_bit_eq_mult)
  show ?thesis
    unfolding e by (rule bit_eqI) (auto simp: bit_simps less_diff_conv2)
qed

lemma nat_and_63: "(n::nat) AND 0x3F = n mod 64"
proof -
  have "(0x3F::nat) = mask 6" by (simp add: mask_eq_exp_minus_1)
  then show ?thesis by (simp only: flip: take_bit_eq_mask) (simp add: take_bit_eq_mod)
qed

lemma pointer_byte:
  assumes "(n::nat) < 256"
  shows "n AND 0xC0 = 0xC0 \<longleftrightarrow> 192 \<le> n"
proof -
  have "n AND 0xC0 = n div 64 mod 4 * 64"
    by (simp add: nat_and_192 push_bit_eq_mult take_bit_eq_mod drop_bit_eq_div)
  moreover have "n div 64 < 4" using assms by (simp add: less_mult_imp_div_less)
  moreover have "n div 64 = 3 \<longleftrightarrow> 192 \<le> n" using assms by auto
  ultimately show ?thesis by simp
qed

lemma push_bit_8_or:
  assumes "b < 256"
  shows "push_bit 8 (a::nat) OR b = a * 256 + b"
proof -
  have b: "take_bit 8 b = b" using assms by (simp add: take_bit_eq_mod)
  have "push_bit 8 a AND b = 0"
    by (subst b [symmetric]) (auto intro!: bit_eqI simp: bit_simps)
  then show ?thesis by (simp add: push_bit_eq_mult flip: disjunctive_add_eq_or)
qed

lemma unat_u8_less [simp]: "unat (b :: u8) < 256"
  using unsigned_less [of b] by simp

lemma unat_u16_less [simp]: "unat (b :: u16) < 65536"
  using unsigned_less [of b] by simp

lemma unat_u8_of_nat [simp]: "n < 256 \<Longrightarrow> unat (of_nat n :: u8) = n"
  by (simp add: unat_of_nat)

lemma unat_u16_of_nat [simp]: "n < 65536 \<Longrightarrow> unat (of_nat n :: u16) = n"
  by (simp add: unat_of_nat)

end
