(* ===== verification/Codec.thy ===== *)
theory Codec
  imports Prelude
begin

text \<open>
  The contracts between the layers of the wire format, and what follows from them for the loops
  that read a whole section of a message. A \<open>decoder\<close> never leaves the packet and never moves
  its offset backwards; a \<open>sized_decoder\<close> takes at least a given number of bytes for each value
  it returns; a \<open>codec\<close> reads back what its encoder wrote, wherever it stands in the packet.
\<close>

section \<open>The section loops\<close>

text \<open>\<open>for _ in 0..count { xs.push(T::parse(data, &mut offset)?); }\<close>\<close>

fun parse_all :: "('a, 'e) parser \<Rightarrow> nat \<Rightarrow> ('a list, 'e) parser" where
  "parse_all p 0 = retP []"
| "parse_all p (Suc n) = bindP p (\<lambda>x. bindP (parse_all p n) (\<lambda>xs. retP (x # xs)))"

text \<open>
  \<open>for _ in 0..count { match T::parse(data, &mut offset) { Ok(x) => xs.push(x), Err(_) => break } }\<close>:
  the error is dropped, the values read so far are kept, and the offset stays where the failed
  call left it.
\<close>

fun parse_until_err :: "('a, 'e) parser \<Rightarrow> nat \<Rightarrow> ('a list, 'e) parser" where
  "parse_until_err p 0 off = (Ok [], off)"
| "parse_until_err p (Suc n) off =
     (case p off of
        (Ok x, off') \<Rightarrow> bindP (parse_until_err p n) (\<lambda>xs. retP (x # xs)) off'
      | (Err _, off') \<Rightarrow> (Ok [], off')
      | (Panic, off') \<Rightarrow> (Panic, off'))"

section \<open>Decoders stay inside the packet\<close>

locale decoder =
  fixes dec :: "bytes \<Rightarrow> ('a, 'e) parser"
  assumes dec_within:
    "off \<le> length data \<Longrightarrow> wpP (dec data) off (\<lambda>r off'. off \<le> off' \<and> off' \<le> length data)"
begin

lemma within:
  "off \<le> length data \<Longrightarrow> dec data off = (r, off') \<Longrightarrow> off \<le> off' \<and> off' \<le> length data"
  by (rule wpD [OF dec_within])

lemma wp_within:
  assumes "off \<le> length data"
    and "\<And>r off'. dec data off = (r, off') \<Longrightarrow> off \<le> off' \<Longrightarrow> off' \<le> length data \<Longrightarrow> Q r off'"
  shows "wpP (dec data) off Q"
  using assms within [OF assms(1)] by (auto simp: wpP_def split: prod.splits)

lemma all_within:
  "off \<le> length data \<Longrightarrow>
   wpP (parse_all (dec data) n) off (\<lambda>r off'. off \<le> off' \<and> off' \<le> length data)"
proof (induction n arbitrary: off)
  case (Suc n)
  show ?case
    using Suc.prems
    by (auto simp: wp_simps intro!: wp_within elim!: wp_mono [OF Suc.IH] split: res.splits)
qed (simp add: wp_simps)

lemma until_err_within:
  "off \<le> length data \<Longrightarrow> parse_until_err (dec data) n off = (r, off') \<Longrightarrow>
   off \<le> off' \<and> off' \<le> length data"
proof (induction n arbitrary: off r off')
  case (Suc n)
  obtain r1 off1 where d: "dec data off = (r1, off1)" by (metis surj_pair)
  then have w: "off \<le> off1" "off1 \<le> length data" using within [OF Suc.prems(1)] by auto
  obtain r2 off2 where d2: "parse_until_err (dec data) n off1 = (r2, off2)" by (metis surj_pair)
  show ?case
    using Suc.IH [OF w(2) d2] Suc.prems(2) d d2 w
    by (auto simp: bindP_def retP_def split: res.splits)
qed simp

end

locale sized_decoder = decoder dec for dec :: "bytes \<Rightarrow> ('a, 'e) parser" +
  fixes min_size :: nat
  assumes dec_size: "off \<le> length data \<Longrightarrow> dec data off = (Ok a, off') \<Longrightarrow> off + min_size \<le> off'"
begin

lemma until_err_size:
  "off \<le> length data \<Longrightarrow> parse_until_err (dec data) n off = (Ok xs, off') \<Longrightarrow>
   off + min_size * length xs \<le> off' \<and> length xs \<le> n"
proof (induction n arbitrary: off xs off')
  case (Suc n)
  obtain r1 off1 where d: "dec data off = (r1, off1)" by (metis surj_pair)
  show ?case
  proof (cases r1)
    case (Ok x)
    obtain r2 off2 where d2: "parse_until_err (dec data) n off1 = (r2, off2)" by (metis surj_pair)
    have "off1 \<le> length data" using within [OF Suc.prems(1)] d by auto
    moreover have "off + min_size \<le> off1" using dec_size [OF Suc.prems(1)] d Ok by auto
    ultimately show ?thesis
      using Suc.IH [of off1] Suc.prems(2) d d2 Ok
      by (fastforce simp: bindP_def retP_def split: res.splits)
  next
    case (Err e)
    then show ?thesis
      using Suc.prems d within [OF Suc.prems(1) d] by auto
  qed (use Suc.prems d in auto)
qed simp

lemma all_size:
  "off \<le> length data \<Longrightarrow> parse_all (dec data) n off = (Ok xs, off') \<Longrightarrow>
   off + min_size * n \<le> off' \<and> length xs = n"
proof (induction n arbitrary: off xs off')
  case (Suc n)
  then obtain x off1 xs' where d: "dec data off = (Ok x, off1)"
    "parse_all (dec data) n off1 = (Ok xs', off')" "xs = x # xs'"
    by (auto simp: bindP_def retP_def split: prod.splits res.splits)
  then show ?case
    using Suc.IH [of off1 xs' off'] dec_size [OF Suc.prems(1) d(1)] within [OF Suc.prems(1) d(1)]
    by auto
qed (simp add: retP_def)

end

section \<open>Codecs\<close>

locale codec = decoder dec for dec :: "bytes \<Rightarrow> ('a, 'e) parser" +
  fixes wf :: "'a \<Rightarrow> bool"
    and enc :: "'a \<Rightarrow> bytes"
  assumes dec_enc: "wf x \<Longrightarrow> off \<le> length data \<Longrightarrow> drop off data = enc x @ post \<Longrightarrow>
    dec data off = (Ok x, off + length (enc x))"
begin

lemma dec_enc_here: "wf x \<Longrightarrow> dec (pre @ enc x @ post) (length pre) = (Ok x, length pre + length (enc x))"
  by (rule dec_enc) simp_all

text \<open>An encoding is prefix free: two well-formed values that start the same bytes are equal.\<close>

lemma enc_unambiguous:
  assumes "wf x" "wf y" "enc x @ s = enc y @ t"
  shows "x = y \<and> s = t"
proof -
  have "dec (enc x @ s) 0 = (Ok x, length (enc x))"
    using dec_enc [OF assms(1), of 0 "enc x @ s" s] by simp
  moreover have "dec (enc x @ s) 0 = (Ok y, length (enc y))"
    using dec_enc [OF assms(2), of 0 "enc x @ s" t] assms(3) by simp
  ultimately have "x = y" by simp
  with assms(3) show ?thesis by simp
qed

lemma all_enc:
  "list_all wf xs \<Longrightarrow> off \<le> length data \<Longrightarrow> drop off data = concat (map enc xs) @ post \<Longrightarrow>
   parse_all (dec data) (length xs) off = (Ok xs, off + length (concat (map enc xs)))"
proof (induction xs arbitrary: off)
  case (Cons x xs)
  have d: "drop off data = enc x @ concat (map enc xs) @ post"
    using Cons.prems(3) by simp
  have 1: "dec data off = (Ok x, off + length (enc x))"
    using dec_enc [OF _ Cons.prems(2) d] Cons.prems(1) by simp
  have 2: "parse_all (dec data) (length xs) (off + length (enc x))
      = (Ok xs, off + length (enc x) + length (concat (map enc xs)))"
    using Cons.IH [OF _ drop_enc_length [OF Cons.prems(2) d] drop_enc_step [OF d]] Cons.prems(1)
    by simp
  show ?case by (simp add: bindP_def retP_def 1 2)
qed (simp add: retP_def)

lemma until_err_enc:
  "list_all wf xs \<Longrightarrow> off \<le> length data \<Longrightarrow> drop off data = concat (map enc xs) @ post \<Longrightarrow>
   parse_until_err (dec data) (length xs) off = (Ok xs, off + length (concat (map enc xs)))"
proof (induction xs arbitrary: off)
  case (Cons x xs)
  have d: "drop off data = enc x @ concat (map enc xs) @ post"
    using Cons.prems(3) by simp
  have 1: "dec data off = (Ok x, off + length (enc x))"
    using dec_enc [OF _ Cons.prems(2) d] Cons.prems(1) by simp
  have 2: "parse_until_err (dec data) (length xs) (off + length (enc x))
      = (Ok xs, off + length (enc x) + length (concat (map enc xs)))"
    using Cons.IH [OF _ drop_enc_length [OF Cons.prems(2) d] drop_enc_step [OF d]] Cons.prems(1)
    by simp
  show ?case by (simp add: bindP_def retP_def 1 2)
qed simp

end

end
