(* ===== verification/Rust_Str.thy ===== *)
theory Rust_Str
  imports Prelude
begin

text \<open>
  The operations of Rust's \<open>str\<close> and \<open>String\<close> that the server uses. A string is its
  UTF-8 bytes: \<open>len\<close> counts them, \<open>as_bytes\<close> is the identity, comparison is byte by byte.
  \<open>String::from_utf8_lossy\<close> is written out as the standard library decodes (one replacement
  character for each maximal ill-formed piece). The case mappings are exact on ASCII strings;
  on any other string they are the Unicode tables of the standard library, which are data and
  a parameter here (the record \<open>unicode\<close>).
\<close>

section \<open>Literals and numbers\<close>

type_synonym rstr = bytes

definition lit :: "string \<Rightarrow> rstr" where
  "lit s = map of_char s"

abbreviation dot :: u8 where "dot \<equiv> 46"

fun show_nat :: "nat \<Rightarrow> rstr" where
  "show_nat n = (if n < 10 then [48 + of_nat n] else show_nat (n div 10) @ [48 + of_nat (n mod 10)])"

declare show_nat.simps [simp del]

section \<open>UTF-8\<close>

definition utf8_char_width :: "u8 \<Rightarrow> nat" where
  "utf8_char_width b =
     (if b < 0x80 then 1
      else if 0xC2 \<le> b \<and> b \<le> 0xDF then 2
      else if 0xE0 \<le> b \<and> b \<le> 0xEF then 3
      else if 0xF0 \<le> b \<and> b \<le> 0xF4 then 4
      else 0)"

definition safe_get :: "bytes \<Rightarrow> nat \<Rightarrow> u8" where
  "safe_get xs i = (if i < length xs then xs ! i else 0)"

definition cont_byte :: "u8 \<Rightarrow> bool" where
  "cont_byte b = (0x80 \<le> b \<and> b \<le> 0xBF)"

definition second_of_three :: "u8 \<Rightarrow> u8 \<Rightarrow> bool" where
  "second_of_three b c =
     (if b = 0xE0 then 0xA0 \<le> c \<and> c \<le> 0xBF
      else if b = 0xED then 0x80 \<le> c \<and> c \<le> 0x9F
      else 0x80 \<le> c \<and> c \<le> 0xBF)"

definition second_of_four :: "u8 \<Rightarrow> u8 \<Rightarrow> bool" where
  "second_of_four b c =
     (if b = 0xF0 then 0x90 \<le> c \<and> c \<le> 0xBF
      else if b = 0xF4 then 0x80 \<le> c \<and> c \<le> 0x8F
      else 0x80 \<le> c \<and> c \<le> 0xBF)"

text \<open>One step of the decoder on a non-empty input: is the next piece one well-formed character,
  and how many bytes does it take.\<close>

definition utf8_step :: "bytes \<Rightarrow> bool \<times> nat" where
  "utf8_step xs =
     (let b = safe_get xs 0; w = utf8_char_width b in
      if w = 1 then (True, 1)
      else if w = 2 then (if cont_byte (safe_get xs 1) then (True, 2) else (False, 1))
      else if w = 3 then
        (if second_of_three b (safe_get xs 1) then
           (if cont_byte (safe_get xs 2) then (True, 3) else (False, 2))
         else (False, 1))
      else if w = 4 then
        (if second_of_four b (safe_get xs 1) then
           (if cont_byte (safe_get xs 2) then
              (if cont_byte (safe_get xs 3) then (True, 4) else (False, 3))
            else (False, 2))
         else (False, 1))
      else (False, 1))"

definition replacement :: rstr where
  "replacement = [0xEF, 0xBF, 0xBD]"

lemma utf8_step_pos: "0 < snd (utf8_step xs)"
  by (auto simp: utf8_step_def Let_def)

function from_utf8_lossy :: "bytes \<Rightarrow> rstr" where
  "from_utf8_lossy xs =
     (if xs = [] then []
      else (if fst (utf8_step xs) then take (snd (utf8_step xs)) xs else replacement)
           @ from_utf8_lossy (drop (snd (utf8_step xs)) xs))"
  by pat_completeness auto
termination
  by (relation "measure length") (auto simp: utf8_step_pos)

declare from_utf8_lossy.simps [simp del]

function valid_utf8 :: "bytes \<Rightarrow> bool" where
  "valid_utf8 xs =
     (if xs = [] then True
      else if fst (utf8_step xs) then valid_utf8 (drop (snd (utf8_step xs)) xs)
      else False)"
  by pat_completeness auto
termination
  by (relation "measure length") (auto simp: utf8_step_pos)

declare valid_utf8.simps [simp del]

section \<open>Case mapping\<close>

record unicode =
  u_lower :: "rstr \<Rightarrow> rstr"
  u_upper :: "rstr \<Rightarrow> rstr"

text \<open>Case tables that change nothing beyond ASCII, for examples.\<close>

abbreviation plain :: unicode where
  "plain \<equiv> \<lparr>u_lower = id, u_upper = id\<rparr>"

definition is_ascii :: "rstr \<Rightarrow> bool" where
  "is_ascii s = list_all (\<lambda>b. b < 0x80) s"

definition ascii_lower :: "u8 \<Rightarrow> u8" where
  "ascii_lower b = (if 0x41 \<le> b \<and> b \<le> 0x5A then b + 0x20 else b)"

definition ascii_upper :: "u8 \<Rightarrow> u8" where
  "ascii_upper b = (if 0x61 \<le> b \<and> b \<le> 0x7A then b - 0x20 else b)"

definition to_lowercase :: "unicode \<Rightarrow> rstr \<Rightarrow> rstr" where
  "to_lowercase U s = (if is_ascii s then map ascii_lower s else u_lower U s)"

definition to_uppercase :: "unicode \<Rightarrow> rstr \<Rightarrow> rstr" where
  "to_uppercase U s = (if is_ascii s then map ascii_upper s else u_upper U s)"

section \<open>Splitting and joining\<close>

text \<open>\<open>str::split\<close> on a one-byte character: \<open>n\<close> separators make \<open>n + 1\<close> pieces.\<close>

fun split_on :: "u8 \<Rightarrow> rstr \<Rightarrow> rstr list" where
  "split_on d [] = [[]]"
| "split_on d (x # xs) =
     (if x = d then [] # split_on d xs
      else (x # hd (split_on d xs)) # tl (split_on d xs))"

fun join :: "rstr \<Rightarrow> rstr list \<Rightarrow> rstr" where
  "join sep [] = []"
| "join sep [x] = x"
| "join sep (x # y # zs) = x @ sep @ join sep (y # zs)"

text \<open>\<open>name.strip_suffix(c).unwrap_or(name)\<close>\<close>

definition strip_suffix :: "u8 \<Rightarrow> rstr \<Rightarrow> rstr" where
  "strip_suffix d s = (if s \<noteq> [] \<and> last s = d then butlast s else s)"

section \<open>Lemmas\<close>

lemma safe_get_cont: "cont_byte (safe_get xs i) \<Longrightarrow> i < length xs"
  by (auto simp: safe_get_def cont_byte_def split: if_splits)

lemma safe_get_second:
  "second_of_three b (safe_get xs i) \<Longrightarrow> i < length xs"
  "second_of_four b (safe_get xs i) \<Longrightarrow> i < length xs"
  by (auto simp: safe_get_def second_of_three_def second_of_four_def split: if_splits)

lemma safe_get_take:
  "i < n \<Longrightarrow> n \<le> length xs \<Longrightarrow> safe_get (take n xs @ ys) i = safe_get xs i"
  by (simp add: safe_get_def nth_append min_def)

lemma utf8_step_ok_cases:
  assumes "fst (utf8_step xs)"
  obtains
    (one) "utf8_char_width (safe_get xs 0) = 1" "utf8_step xs = (True, 1)"
  | (two) "utf8_char_width (safe_get xs 0) = 2" "cont_byte (safe_get xs 1)"
      "utf8_step xs = (True, 2)"
  | (three) "utf8_char_width (safe_get xs 0) = 3" "second_of_three (safe_get xs 0) (safe_get xs 1)"
      "cont_byte (safe_get xs 2)" "utf8_step xs = (True, 3)"
  | (four) "utf8_char_width (safe_get xs 0) = 4" "second_of_four (safe_get xs 0) (safe_get xs 1)"
      "cont_byte (safe_get xs 2)" "cont_byte (safe_get xs 3)" "utf8_step xs = (True, 4)"
  using assms by (simp add: utf8_step_def Let_def split: if_split_asm)

lemma utf8_step_ok_le:
  "xs \<noteq> [] \<Longrightarrow> fst (utf8_step xs) \<Longrightarrow> snd (utf8_step xs) \<le> length xs"
  by (erule utf8_step_ok_cases) (auto dest!: safe_get_cont simp: Suc_le_eq)

lemma utf8_step_prefix:
  assumes "xs \<noteq> []" and "fst (utf8_step xs)"
  shows "utf8_step (take (snd (utf8_step xs)) xs @ ys) = utf8_step xs"
  using assms(2)
proof (cases rule: utf8_step_ok_cases)
  case one
  then show ?thesis
    using utf8_step_ok_le [OF assms] by (simp add: utf8_step_def safe_get_take)
next
  case two
  then show ?thesis
    using utf8_step_ok_le [OF assms] by (simp add: utf8_step_def safe_get_take)
next
  case three
  then show ?thesis
    using utf8_step_ok_le [OF assms] by (simp add: utf8_step_def safe_get_take)
next
  case four
  then show ?thesis
    using utf8_step_ok_le [OF assms] by (simp add: utf8_step_def safe_get_take)
qed

lemma from_utf8_lossy_Nil [simp]: "from_utf8_lossy [] = []"
  by (simp add: from_utf8_lossy.simps)

lemma valid_utf8_Nil [simp]: "valid_utf8 []"
  by (simp add: valid_utf8.simps)

lemma from_utf8_lossy_valid_id: "valid_utf8 xs \<Longrightarrow> from_utf8_lossy xs = xs"
proof (induction xs rule: valid_utf8.induct)
  case (1 xs)
  then show ?case
    by (cases "xs = []") (auto simp: valid_utf8.simps [of xs] from_utf8_lossy.simps [of xs])
qed

lemma valid_utf8_char_append:
  assumes "xs \<noteq> []" "fst (utf8_step xs)" "valid_utf8 ys"
  shows "valid_utf8 (take (snd (utf8_step xs)) xs @ ys)"
proof -
  let ?n = "snd (utf8_step xs)"
  let ?zs = "take ?n xs @ ys"
  have st: "utf8_step ?zs = utf8_step xs"
    using assms by (intro utf8_step_prefix)
  have "drop ?n ?zs = ys"
    using utf8_step_ok_le [OF assms(1,2)] by simp
  then show ?thesis
    using assms st by (subst valid_utf8.simps) simp
qed

lemma valid_utf8_replacement_append: "valid_utf8 ys \<Longrightarrow> valid_utf8 (replacement @ ys)"
proof -
  assume ys: "valid_utf8 ys"
  have st: "utf8_step replacement = (True, 3)"
    by (simp add: utf8_step_def replacement_def safe_get_def utf8_char_width_def
        second_of_three_def cont_byte_def)
  then show ?thesis
    using valid_utf8_char_append [of replacement ys] ys by (simp add: replacement_def)
qed

lemma from_utf8_lossy_valid: "valid_utf8 (from_utf8_lossy xs)"
proof (induction xs rule: from_utf8_lossy.induct)
  case (1 xs)
  then show ?case
    by (cases "xs = []")
      (auto simp: from_utf8_lossy.simps [of xs] valid_utf8_char_append
        valid_utf8_replacement_append)
qed

lemma from_utf8_lossy_length: "length (from_utf8_lossy xs) \<le> 3 * length xs"
proof (induction xs rule: from_utf8_lossy.induct)
  case (1 xs)
  show ?case
  proof (cases "xs = []")
    case False
    let ?n = "snd (utf8_step xs)"
    have "length (if fst (utf8_step xs) then take ?n xs else replacement) \<le> 3 * min ?n (length xs)"
      using False utf8_step_pos [of xs] by (cases xs) (auto simp: replacement_def min_def)
    moreover have "length (from_utf8_lossy (drop ?n xs)) \<le> 3 * (length xs - ?n)"
      using 1 [OF False] by simp
    ultimately show ?thesis
      using False by (subst from_utf8_lossy.simps) (auto simp: min_def split: if_splits)
  qed simp
qed

lemma utf8_step_ascii: "x < 0x80 \<Longrightarrow> utf8_step (x # xs) = (True, 1)"
  by (simp add: utf8_step_def safe_get_def utf8_char_width_def)

lemma ascii_valid_utf8: "is_ascii s \<Longrightarrow> valid_utf8 s"
proof (induction s)
  case (Cons x xs)
  then show ?case
    by (subst valid_utf8.simps) (simp add: is_ascii_def utf8_step_ascii)
qed simp

lemma ascii_lower_idem [simp]: "ascii_lower (ascii_lower b) = ascii_lower b"
proof (cases "0x41 \<le> b \<and> b \<le> 0x5A")
  case True
  then have "unat (b + 0x20) = unat b + 32"
    by (simp add: unat_word_ariths word_le_nat_alt)
  then show ?thesis using True by (auto simp: ascii_lower_def word_le_nat_alt)
qed (auto simp: ascii_lower_def)

lemma ascii_lower_ascii: "b < 0x80 \<Longrightarrow> ascii_lower b < 0x80"
  by (auto simp: ascii_lower_def word_le_nat_alt word_less_nat_alt unat_word_ariths)

lemma to_lowercase_ascii_idem:
  "is_ascii s \<Longrightarrow> to_lowercase U (to_lowercase U s) = to_lowercase U s"
  by (auto simp: to_lowercase_def is_ascii_def list_all_iff ascii_lower_ascii)

lemma to_lowercase_ascii: "is_ascii s \<Longrightarrow> is_ascii (to_lowercase U s)"
  by (auto simp: to_lowercase_def is_ascii_def list_all_iff ascii_lower_ascii)

lemma to_lowercase_Nil [simp]: "to_lowercase U [] = []"
  by (simp add: to_lowercase_def is_ascii_def)

lemma split_on_nonempty [simp]: "split_on d s \<noteq> []"
  by (cases s) auto

lemma split_on_append:
  "split_on d (xs @ d # ys) = split_on d xs @ split_on d ys"
  by (induction xs) (auto simp: hd_append tl_append split: list.splits)

lemma split_on_no_sep: "d \<notin> set xs \<Longrightarrow> split_on d xs = [xs]"
  by (induction xs) auto

lemma split_on_pieces: "x \<in> set (split_on d s) \<Longrightarrow> d \<notin> set x"
proof (induction s arbitrary: x)
  case (Cons a s)
  have hd: "hd (split_on d s) \<in> set (split_on d s)" by simp
  show ?case
  proof (cases "a = d")
    case False
    then have "x = a # hd (split_on d s) \<or> x \<in> set (split_on d s)"
      using Cons.prems by (auto dest: list.set_sel(2) [rotated])
    then show ?thesis
      using Cons.IH [OF hd] Cons.IH [of x] False by auto
  qed (use Cons in auto)
qed simp

lemma join_split_on: "join [d] (split_on d s) = s"
proof (induction s)
  case (Cons a s)
  then show ?case
    by (cases "split_on d s"; cases "tl (split_on d s)") auto
qed simp

lemma split_on_join:
  "ls \<noteq> [] \<Longrightarrow> (\<forall>l \<in> set ls. d \<notin> set l) \<Longrightarrow> split_on d (join [d] ls) = ls"
proof (induction "[d]" ls rule: join.induct)
  case (3 x y zs)
  then show ?case
    by (simp add: split_on_append split_on_no_sep)
qed (simp_all add: split_on_no_sep)

lemma ascii_lower_dot [simp]: "ascii_lower b = dot \<longleftrightarrow> b = dot"
proof (cases "0x41 \<le> b \<and> b \<le> 0x5A")
  case True
  then have "unat (b + 0x20) = unat b + 32"
    by (simp add: unat_word_ariths word_le_nat_alt)
  then have "b + 0x20 \<noteq> dot" "b \<noteq> dot" using True by (auto simp: word_le_nat_alt)
  then show ?thesis by (simp add: ascii_lower_def)
qed (auto simp: ascii_lower_def)

lemma split_on_map:
  assumes "\<And>b. f b = d \<longleftrightarrow> b = d"
  shows "map (map f) (split_on d u) = split_on d (map f u)"
proof (induction u)
  case (Cons a u)
  then show ?case
    using assms by (cases "split_on d u") (auto simp flip: Cons.IH)
qed simp

lemma strip_suffix_map:
  assumes "\<And>b. f b = d \<longleftrightarrow> b = d"
  shows "map f (strip_suffix d u) = strip_suffix d (map f u)"
  using assms by (cases u rule: rev_cases) (auto simp: strip_suffix_def)

end
