(* ===== verification/Error.thy ===== *)
theory Error
  imports Rust_Str
begin

text \<open>
  \<open>src/dns/error.rs\<close>: the error type of the wire format and of the zone loader, and its display
  text, which the zone loader puts into the messages of its own errors. An
  \<open>std::io::Error\<close> is carried by its display text.
\<close>

datatype DnsError =
    ParseError rstr
  | SerializeError rstr
  | NameTooLong
  | LabelTooLong
  | BufferTooShort
  | InvalidPointer
  | PointerLoop
  | UnknownRecordType u16
  | IoError rstr
  | Truncated

fun DnsError_fmt :: "DnsError \<Rightarrow> rstr" where
  "DnsError_fmt (ParseError msg) = lit ''Parse error: '' @ msg"
| "DnsError_fmt (SerializeError msg) = lit ''Serialize error: '' @ msg"
| "DnsError_fmt NameTooLong = lit ''Domain name exceeds 255 bytes''"
| "DnsError_fmt LabelTooLong = lit ''Label exceeds 63 bytes''"
| "DnsError_fmt BufferTooShort = lit ''Buffer too short''"
| "DnsError_fmt InvalidPointer = lit ''Invalid compression pointer''"
| "DnsError_fmt PointerLoop = lit ''Compression pointer loop detected''"
| "DnsError_fmt (UnknownRecordType t) = lit ''Unknown record type: '' @ show_nat (unat t)"
| "DnsError_fmt (IoError e) = lit ''IO error: '' @ e"
| "DnsError_fmt Truncated = lit ''Message truncated''"

definition DnsError_from_io :: "rstr \<Rightarrow> DnsError" where
  "DnsError_from_io e = IoError e"

end
