(* ===== verification/Name.thy ===== *)
theory Name
  imports Codec Error
begin

text \<open>
  \<open>src/dns/name.rs\<close>: domain names. A name is its list of labels, each a lower-cased string;
  \<open>DnsName_new\<close> reads the dotted form, \<open>DnsName_to_wire\<close> and \<open>DnsName_parse\<close> are the wire
  form, the parser following compression pointers. The loop of the parser is
  \<open>DnsName_parse_loop\<close>, with the loop's variables as its arguments.
\<close>

section \<open>The type\<close>

datatype DnsName = DnsName (labels: "rstr list")

instantiation DnsName :: linorder
begin

text \<open>\<open>derive(PartialOrd, Ord)\<close>: the order of the label lists.\<close>

definition less_eq_DnsName :: "DnsName \<Rightarrow> DnsName \<Rightarrow> bool" where
  "less_eq_DnsName a b = (labels a \<le> labels b)"

definition less_DnsName :: "DnsName \<Rightarrow> DnsName \<Rightarrow> bool" where
  "less_DnsName a b = (labels a < labels b)"

instance
  by standard (auto simp: less_eq_DnsName_def less_DnsName_def DnsName.expand)

end

section \<open>Construction and structure\<close>

definition DnsName_new :: "unicode \<Rightarrow> rstr \<Rightarrow> (DnsName, DnsError) res" where
  "DnsName_new U name =
     (if name = [] \<or> name = [dot] then Ok (DnsName [])
      else
        let name = strip_suffix dot name;
            labels = map (to_lowercase U) (split_on dot name)
        in if list_ex (\<lambda>label. length label > 63) labels then Err LabelTooLong
           else let total = sum_list (map (\<lambda>l. length l + 1) labels) + 1
                in if total > 255 then Err NameTooLong else Ok (DnsName labels))"

definition DnsName_root :: DnsName where
  "DnsName_root = DnsName []"

definition is_root :: "DnsName \<Rightarrow> bool" where
  "is_root n = (labels n = [])"

definition label_count :: "DnsName \<Rightarrow> nat" where
  "label_count n = length (labels n)"

definition parent :: "DnsName \<Rightarrow> DnsName option" where
  "parent n =
     (if length (labels n) \<le> 1 then
        (if labels n = [] then None else Some DnsName_root)
      else Some (DnsName (drop 1 (labels n))))"

definition is_subdomain_of :: "DnsName \<Rightarrow> DnsName \<Rightarrow> bool" where
  "is_subdomain_of n other =
     (if length (labels n) < length (labels other) then False
      else drop (length (labels n) - length (labels other)) (labels n) = labels other)"

definition to_dotted :: "DnsName \<Rightarrow> rstr" where
  "to_dotted n = (if labels n = [] then [dot] else join [dot] (labels n) @ [dot])"

definition DnsName_fmt :: "DnsName \<Rightarrow> rstr" where
  "DnsName_fmt n = (if labels n = [] then [dot] else join [dot] (labels n))"

section \<open>The wire form\<close>

fun wire_labels :: "rstr list \<Rightarrow> bytes" where
  "wire_labels [] = []"
| "wire_labels (l # ls) = [of_nat (length l)] @ l @ wire_labels ls"

definition DnsName_to_wire :: "DnsName \<Rightarrow> bytes" where
  "DnsName_to_wire n = wire_labels (labels n) @ [0]"

definition MAX_JUMPS :: nat where
  "MAX_JUMPS = 128"

function DnsName_parse_loop ::
  "unicode \<Rightarrow> bytes \<Rightarrow> rstr list \<Rightarrow> bool \<Rightarrow> nat \<Rightarrow> nat \<Rightarrow> (DnsName, DnsError) parser" where
  "DnsName_parse_loop U data ls jumped current jumps offset =
     (if current \<ge> length data then (Err BufferTooShort, offset)
      else case u8_at data current of
        Err e \<Rightarrow> (Err e, offset)
      | Panic \<Rightarrow> (Panic, offset)
      | Ok byte \<Rightarrow>
        let len = unat byte in
        if len = 0 then (Ok (DnsName ls), if jumped then offset else current + 1)
        else if len AND 0xC0 = 0xC0 then
          (if current + 1 \<ge> length data then (Err BufferTooShort, offset)
           else let offset = (if jumped then offset else current + 2)
                in case u8_at data (current + 1) of
                     Err e \<Rightarrow> (Err e, offset)
                   | Panic \<Rightarrow> (Panic, offset)
                   | Ok low \<Rightarrow>
                     let pointer = push_bit 8 (len AND 0x3F) OR unat low
                     in if pointer \<ge> length data then (Err InvalidPointer, offset)
                        else if jumps + 1 > MAX_JUMPS then (Err PointerLoop, offset)
                        else DnsName_parse_loop U data ls True pointer (jumps + 1) offset)
        else if current + 1 + len > length data then (Err BufferTooShort, offset)
        else case slice_at data (current + 1) (current + 1 + len) of
               Err e \<Rightarrow> (Err e, offset)
             | Panic \<Rightarrow> (Panic, offset)
             | Ok bytes \<Rightarrow>
               let label = to_lowercase U (from_utf8_lossy bytes)
               in DnsName_parse_loop U data (ls @ [label]) jumped (current + 1 + len) jumps offset)"
  by pat_completeness auto
termination
  by (relation "measures [\<lambda>(U, data, ls, jumped, current, jumps, offset). MAX_JUMPS - jumps,
        \<lambda>(U, data, ls, jumped, current, jumps, offset). length data - current]") auto

declare DnsName_parse_loop.simps [simp del]

definition DnsName_parse :: "unicode \<Rightarrow> bytes \<Rightarrow> (DnsName, DnsError) parser" where
  "DnsName_parse U data offset = DnsName_parse_loop U data [] False offset 0 offset"

section \<open>The reference reading of the wire form\<close>

text \<open>
  \<open>name_at U data cur k ls\<close>: the name at position \<open>cur\<close> of the packet has the labels \<open>ls\<close>,
  and reading it follows \<open>k\<close> compression pointers. It is the wire form the parser reads, in
  arithmetic instead of bit masks and without the loop's bookkeeping. It is wider than that of
  RFC 1035, which has no labels of more than 63 bytes: a length byte from 64 to 191 is a length
  here, as in the code.
\<close>

inductive name_at :: "unicode \<Rightarrow> bytes \<Rightarrow> nat \<Rightarrow> nat \<Rightarrow> rstr list \<Rightarrow> bool"
  for U :: unicode and data :: bytes where
  name_end: "cur < length data \<Longrightarrow> data ! cur = 0 \<Longrightarrow> name_at U data cur 0 []"
| name_label: "cur < length data \<Longrightarrow> n = unat (data ! cur) \<Longrightarrow> 0 < n \<Longrightarrow> n < 192 \<Longrightarrow>
    cur + 1 + n \<le> length data \<Longrightarrow> name_at U data (cur + 1 + n) k ls \<Longrightarrow>
    name_at U data cur k
      (to_lowercase U (from_utf8_lossy (slice (cur + 1) (cur + 1 + n) data)) # ls)"
| name_pointer: "cur + 1 < length data \<Longrightarrow> 192 \<le> unat (data ! cur) \<Longrightarrow>
    p = (unat (data ! cur) - 192) * 256 + unat (data ! (cur + 1)) \<Longrightarrow> p < length data \<Longrightarrow>
    name_at U data p k ls \<Longrightarrow> name_at U data cur (Suc k) ls"

text \<open>The names whose wire form can be read back: labels that are not empty, whose length byte is
  no pointer, and that decoding and lower-casing leave alone.\<close>

definition wf_label :: "unicode \<Rightarrow> rstr \<Rightarrow> bool" where
  "wf_label U l = (l \<noteq> [] \<and> length l < 192 \<and> valid_utf8 l \<and> to_lowercase U l = l)"

definition wf_name :: "unicode \<Rightarrow> DnsName \<Rightarrow> bool" where
  "wf_name U n = list_all (wf_label U) (labels n)"

section \<open>The steps of the parser's loop\<close>

lemma loop_short:
  "length data \<le> cur \<Longrightarrow> DnsName_parse_loop U data ls j cur k off = (Err BufferTooShort, off)"
  by (simp add: DnsName_parse_loop.simps)

lemma loop_end:
  "cur < length data \<Longrightarrow> data ! cur = 0 \<Longrightarrow>
   DnsName_parse_loop U data ls j cur k off = (Ok (DnsName ls), if j then off else cur + 1)"
  by (simp add: DnsName_parse_loop.simps u8_at_def)

lemma loop_label:
  "cur < length data \<Longrightarrow> 0 < unat (data ! cur) \<Longrightarrow> unat (data ! cur) < 192 \<Longrightarrow>
   DnsName_parse_loop U data ls j cur k off =
     (if cur + 1 + unat (data ! cur) > length data then (Err BufferTooShort, off)
      else DnsName_parse_loop U data
        (ls @ [to_lowercase U (from_utf8_lossy (slice (cur + 1) (cur + 1 + unat (data ! cur)) data))])
        j (cur + 1 + unat (data ! cur)) k off)"
  by (subst DnsName_parse_loop.simps) (simp add: pointer_byte Let_def u8_at_def slice_at_def)

lemma pointer_value:
  "192 \<le> unat (b :: u8) \<Longrightarrow>
   push_bit 8 (unat b AND 0x3F) OR unat (c :: u8) = (unat b - 192) * 256 + unat c"
proof -
  assume b: "192 \<le> unat b"
  define d where "d = unat b - 192"
  have "unat b = 3 * 64 + d" "d < 64"
    unfolding d_def using b unat_u8_less [of b] by linarith+
  then have "unat b mod 64 = unat b - 192"
    by (simp only: mod_mult_self3) simp
  then show ?thesis by (simp add: push_bit_8_or nat_and_63 del: push_bit_and)
qed

lemma loop_pointer:
  assumes "cur < length data" "192 \<le> unat (data ! cur)"
  shows "DnsName_parse_loop U data ls j cur k off =
     (if cur + 1 \<ge> length data then (Err BufferTooShort, off)
      else let off' = (if j then off else cur + 2);
               p = (unat (data ! cur) - 192) * 256 + unat (data ! (cur + 1))
           in if p \<ge> length data then (Err InvalidPointer, off')
              else if k + 1 > MAX_JUMPS then (Err PointerLoop, off')
              else DnsName_parse_loop U data ls True p (k + 1) off')"
proof -
  have "unat (data ! cur) \<noteq> 0" using assms(2) by simp
  then show ?thesis
    using assms by (subst DnsName_parse_loop.simps) (simp add: pointer_byte pointer_value Let_def u8_at_def del: push_bit_and)
qed

lemma loop_cases [case_names short finish label pointer]:
  assumes "length data \<le> cur \<Longrightarrow> P" "cur < length data \<Longrightarrow> data ! cur = 0 \<Longrightarrow> P"
    "cur < length data \<Longrightarrow> 0 < unat (data ! cur) \<Longrightarrow> unat (data ! cur) < 192 \<Longrightarrow> P"
    "cur < length data \<Longrightarrow> 192 \<le> unat (data ! cur) \<Longrightarrow> P"
  shows P
  using assms by (cases "cur < length data"; cases "unat (data ! cur) < 192";
      cases "unat (data ! cur) = 0") (auto simp: unat_eq_0)

lemmas loop_steps = loop_short loop_end loop_label loop_pointer

text \<open>The induction the proofs about the loop use: one case for each way an iteration goes.\<close>

lemma loop_induct [case_names short finish label pointer]:
  assumes short: "\<And>ls j cur k off. length data \<le> cur \<Longrightarrow> P ls j cur k off"
    and finish: "\<And>ls j cur k off. cur < length data \<Longrightarrow> data ! cur = 0 \<Longrightarrow> P ls j cur k off"
    and label: "\<And>ls j cur k off n. cur < length data \<Longrightarrow> n = unat (data ! cur) \<Longrightarrow> 0 < n \<Longrightarrow> n < 192 \<Longrightarrow>
      (cur + 1 + n \<le> length data \<Longrightarrow>
        P (ls @ [to_lowercase U (from_utf8_lossy (slice (cur + 1) (cur + 1 + n) data))]) j
          (cur + 1 + n) k off) \<Longrightarrow> P ls j cur k off"
    and pointer: "\<And>ls j cur k off p. cur < length data \<Longrightarrow> 192 \<le> unat (data ! cur) \<Longrightarrow>
      p = (unat (data ! cur) - 192) * 256 + unat (data ! (cur + 1)) \<Longrightarrow>
      (cur + 1 < length data \<Longrightarrow> p < length data \<Longrightarrow> k < MAX_JUMPS \<Longrightarrow>
        P ls True p (k + 1) (if j then off else cur + 2)) \<Longrightarrow> P ls j cur k off"
  shows "P ls j cur k off"
proof (induction "(k, cur)" arbitrary: ls j cur k off
    rule: wf_induct_rule [OF wf_measures [of "[\<lambda>(k, cur). MAX_JUMPS - k, \<lambda>(k, cur). length data - cur]"]])
  case 1
  show ?case
  proof (cases data cur rule: loop_cases)
    case label
    show ?thesis
      by (rule assms(3) [OF label(1) refl label(2,3)]) (rule 1, use label in auto)
  next
    case pointer
    show ?thesis
      by (rule assms(4) [OF pointer(1,2) refl]) (rule 1, auto)
  qed (auto intro: short finish)
qed

section \<open>Bounds of the parser\<close>

lemma loop_within:
  assumes "off0 \<le> off" "off \<le> length data" "j \<or> off0 \<le> cur"
  shows "wpP (DnsName_parse_loop U data ls j cur k) off (\<lambda>r off'. off0 \<le> off' \<and> off' \<le> length data)"
  using assms unfolding wpP_def
  by (induction ls j cur k off rule: loop_induct [where U = U and data = data])
    (auto simp: loop_steps Let_def)

lemma loop_no_panic: "fst (DnsName_parse_loop U data ls j cur k off) \<noteq> Panic"
  by (induction ls j cur k off rule: loop_induct [where U = U and data = data]) (auto simp: loop_steps Let_def)

lemma DnsName_parse_no_panic: "fst (DnsName_parse U data off) \<noteq> Panic"
  by (simp add: DnsName_parse_def loop_no_panic)

lemma loop_progress:
  "DnsName_parse_loop U data ls j cur k off = (Ok n, off') \<Longrightarrow> j \<or> off0 \<le> cur \<Longrightarrow>
   (j \<Longrightarrow> off0 + 1 \<le> off) \<Longrightarrow> off0 + 1 \<le> off'"
  by (induction ls j cur k off rule: loop_induct [where U = U and data = data])
    (auto simp: loop_steps Let_def split: if_splits)

section \<open>The parser against the reference reading\<close>

lemma loop_complete:
  "name_at U data cur m ls \<Longrightarrow> k + m \<le> MAX_JUMPS \<Longrightarrow>
   fst (DnsName_parse_loop U data acc j cur k off) = Ok (DnsName (acc @ ls))"
  by (induction arbitrary: acc j k off rule: name_at.induct)
    (auto simp: loop_steps Let_def not_less not_le)

lemma loop_too_many_jumps:
  "name_at U data cur m ls \<Longrightarrow> MAX_JUMPS < k + m \<Longrightarrow> k \<le> MAX_JUMPS \<Longrightarrow>
   fst (DnsName_parse_loop U data acc j cur k off) = Err PointerLoop"
  by (induction arbitrary: acc j k off rule: name_at.induct)
    (auto simp: loop_steps Let_def not_less not_le)

lemma loop_sound:
  "fst (DnsName_parse_loop U data acc j cur k off) = Ok nm \<Longrightarrow> k \<le> MAX_JUMPS \<Longrightarrow>
   \<exists>m ls. labels nm = acc @ ls \<and> k + m \<le> MAX_JUMPS \<and> name_at U data cur m ls"
proof (induction acc j cur k off rule: loop_induct [where U = U and data = data])
  case (short ls j cur k off)
  then show ?case by (simp add: loop_short)
next
  case (finish ls j cur k off)
  then show ?case
    by (intro exI [of _ "0::nat"] exI [of _ "[]"]) (auto simp: loop_end intro: name_end)
next
  case (label ls j cur k off n)
  let ?l = "to_lowercase U (from_utf8_lossy (slice (cur + 1) (cur + 1 + n) data))"
  have fit: "cur + 1 + n \<le> length data"
    using label by (auto simp: loop_label not_less split: if_splits)
  then obtain m ls' where "labels nm = (ls @ [?l]) @ ls'" "k + m \<le> MAX_JUMPS"
      "name_at U data (cur + 1 + n) m ls'"
    using label by (auto simp: loop_label not_less)
  then show ?case
    using name_label [OF label(1-4) fit]
    by (intro exI [of _ m] exI [of _ "?l # ls'"]) simp
next
  case (pointer ls j cur k off p)
  then have "cur + 1 < length data" "p < length data" "k < MAX_JUMPS"
    by (auto simp: loop_pointer Let_def split: if_splits)
  moreover obtain m ls' where "labels nm = ls @ ls'" "k + 1 + m \<le> MAX_JUMPS"
      "name_at U data p m ls'"
    using pointer calculation by (auto simp: loop_pointer Let_def split: if_splits)
  ultimately show ?case
    using name_pointer [OF _ pointer(2,3)]
    by (intro exI [of _ "Suc m"] exI [of _ ls']) simp
qed

section \<open>Reading back what was written\<close>

lemma wf_label_byte:
  assumes "wf_label U l"
  shows "unat (of_nat (length l) :: u8) = length l" "0 < length l" "length l < 192"
  using assms by (auto simp: wf_label_def)

lemma loop_wire:
  "list_all (wf_label U) ls \<Longrightarrow> cur \<le> length data \<Longrightarrow>
   drop cur data = wire_labels ls @ [0] @ post \<Longrightarrow>
   DnsName_parse_loop U data acc False cur k off
     = (Ok (DnsName (acc @ ls)), cur + length (wire_labels ls) + 1)"
proof (induction ls arbitrary: acc cur)
  case Nil
  then have "cur < length data" "data ! cur = 0"
    using nth_via_drop [of cur data 0 post] by (auto simp: not_less le_antisym intro: ccontr)
  then show ?case by (simp add: loop_end)
next
  case (Cons l ls)
  have l: "wf_label U l" using Cons.prems(1) by simp
  note d = Cons.prems(3)
  have cur: "cur < length data" and byte: "data ! cur = of_nat (length l)"
    using nth_via_drop [of cur data] d by (auto simp: not_less le_antisym intro: ccontr)
  have d1: "drop (cur + 1) data = l @ wire_labels ls @ [0] @ post"
    using drop_enc_step [of cur data "[of_nat (length l)]"] d by simp
  have len: "cur + 1 + length l \<le> length data"
    using drop_enc_length [OF _ d1] cur by simp
  have sl: "slice (cur + 1) (cur + 1 + length l) data = l"
    using d1 by (simp add: slice_def)
  have d2: "drop (cur + 1 + length l) data = wire_labels ls @ [0] @ post"
    by (rule drop_enc_step [OF d1])
  have "DnsName_parse_loop U data acc False cur k off
      = DnsName_parse_loop U data (acc @ [l]) False (cur + 1 + length l) k off"
    using wf_label_byte [OF l] l len sl byte
    by (subst loop_label [OF cur])
      (auto simp: from_utf8_lossy_valid_id wf_label_def)
  also have "\<dots> = (Ok (DnsName (acc @ l # ls)), cur + 1 + length l + length (wire_labels ls) + 1)"
    using Cons.IH [OF _ len d2, of "acc @ [l]"] Cons.prems(1) by simp
  finally show ?case by simp
qed

interpretation nm: codec "DnsName_parse U" "wf_name U" DnsName_to_wire for U
proof unfold_locales
  fix off and data :: bytes
  assume "off \<le> length data"
  then show "wpP (DnsName_parse U data) off (\<lambda>r off'. off \<le> off' \<and> off' \<le> length data)"
    using loop_within [of off off data False off] by (simp add: DnsName_parse_def wpP_def)
next
  fix x off post and data :: bytes
  assume "wf_name U x" "off \<le> length data" "drop off data = DnsName_to_wire x @ post"
  then show "DnsName_parse U data off = (Ok x, off + length (DnsName_to_wire x))"
    using loop_wire [of U "labels x" off data post "[]"]
    by (simp add: DnsName_parse_def wf_name_def DnsName_to_wire_def)
qed

interpretation nm: sized_decoder "DnsName_parse U" 1 for U
proof unfold_locales
  fix off a off' and data :: bytes
  assume "DnsName_parse U data off = (Ok a, off')"
  then show "off + 1 \<le> off'"
    using loop_progress [of U data "[]" False off 0 off a off' off]
    by (simp add: DnsName_parse_def)
qed

section \<open>Dotted names\<close>

lemma wire_labels_length:
  "length (wire_labels ls) = sum_list (map (\<lambda>l. length l + 1) ls)"
  by (induction ls) auto

lemma DnsName_to_wire_length:
  "length (DnsName_to_wire n) = sum_list (map (\<lambda>l. length l + 1) (labels n)) + 1"
  by (simp add: DnsName_to_wire_def wire_labels_length)

lemma DnsName_new_no_panic: "DnsName_new U s \<noteq> Panic"
  by (simp add: DnsName_new_def Let_def)

lemma DnsName_new_limits:
  "DnsName_new U s = Ok n \<Longrightarrow>
   (\<forall>l \<in> set (labels n). length l \<le> 63) \<and> length (DnsName_to_wire n) \<le> 255"
  by (auto simp: DnsName_new_def Let_def DnsName_to_wire_length list_ex_iff not_less split: if_splits)

lemma strip_suffix_set: "set (strip_suffix d s) \<subseteq> set s"
  by (auto simp: strip_suffix_def dest: in_set_butlastD)

lemma split_on_set: "x \<in> set (split_on d s) \<Longrightarrow> set x \<subseteq> set s"
proof (induction s arbitrary: x)
  case (Cons a s)
  have hd: "hd (split_on d s) \<in> set (split_on d s)" by simp
  have "x = [] \<or> x = a # hd (split_on d s) \<or> x \<in> set (split_on d s)"
    using Cons.prems by (auto dest: list.set_sel(2) [rotated] split: if_splits)
  then show ?case
    using Cons.IH [OF hd] Cons.IH [of x] by auto
qed simp

lemma split_on_ascii: "is_ascii s \<Longrightarrow> x \<in> set (split_on d (strip_suffix dot s)) \<Longrightarrow> is_ascii x"
  using split_on_set [of x d "strip_suffix dot s"] strip_suffix_set [of dot s]
  unfolding is_ascii_def list_all_iff by blast

lemma DnsName_new_wf:
  assumes "DnsName_new U s = Ok n" "is_ascii s" "[] \<notin> set (labels n)"
  shows "wf_name U n"
proof -
  have "\<forall>l \<in> set (labels n). \<exists>x. is_ascii x \<and> l = to_lowercase U x"
    using assms(1) split_on_ascii [OF assms(2)]
    by (fastforce simp: DnsName_new_def Let_def split: if_splits)
  then show ?thesis
    using DnsName_new_limits [OF assms(1)] assms(3)
    by (fastforce simp: wf_name_def wf_label_def list_all_iff to_lowercase_ascii_idem
        intro: ascii_valid_utf8 to_lowercase_ascii)
qed

lemma DnsName_new_join:
  assumes "ls \<noteq> []" "\<forall>l \<in> set ls. l \<noteq> [] \<and> dot \<notin> set l \<and> to_lowercase U l = l \<and> length l \<le> 63"
    and "sum_list (map (\<lambda>l. length l + 1) ls) + 1 \<le> 255"
    and "s = join [dot] ls \<or> s = join [dot] ls @ [dot]"
  shows "DnsName_new U s = Ok (DnsName ls)"
proof -
  let ?j = "join [dot] ls"
  have ends: "?j \<noteq> [] \<and> last ?j \<noteq> dot"
    using assms(1,2)
  proof (induction "[dot]" ls rule: join.induct)
    case (2 x)
    then show ?case using last_in_set [of x] by fastforce
  next
    case (3 x y zs)
    then show ?case by simp
  qed simp
  then have st: "strip_suffix dot s = ?j" and ne: "s \<noteq> []" "s \<noteq> [dot]"
    using assms(4) by (auto simp: strip_suffix_def)
  have sp: "split_on dot ?j = ls"
    using assms(1,2) by (intro split_on_join) auto
  have "map (to_lowercase U) ls = ls"
    using assms(2) by (intro map_idI) auto
  then show ?thesis
    using assms(2,3) ne
    by (auto simp: DnsName_new_def Let_def st sp list_ex_iff)
qed

lemma ascii_lower_eq_iff:
  assumes "map ascii_lower s = map ascii_lower t"
  shows "s = [] \<longleftrightarrow> t = []" "s = [dot] \<longleftrightarrow> t = [dot]"
proof -
  show "s = [] \<longleftrightarrow> t = []"
    using arg_cong [OF assms, of length] by auto
  have "s = [dot] \<longleftrightarrow> map ascii_lower s = [dot]" for s
    by (auto simp: map_eq_Cons_conv)
  then show "s = [dot] \<longleftrightarrow> t = [dot]" using assms by metis
qed

lemma new_labels_ascii:
  assumes "is_ascii u"
  shows "map (to_lowercase U) (split_on dot (strip_suffix dot u))
    = split_on dot (strip_suffix dot (map ascii_lower u))"
proof -
  have "map (to_lowercase U) (split_on dot (strip_suffix dot u))
      = map (map ascii_lower) (split_on dot (strip_suffix dot u))"
    using split_on_ascii [OF assms] by (intro map_cong) (auto simp: to_lowercase_def)
  also have "\<dots> = split_on dot (map ascii_lower (strip_suffix dot u))"
    by (rule split_on_map) simp
  also have "\<dots> = split_on dot (strip_suffix dot (map ascii_lower u))"
    by (subst strip_suffix_map) simp_all
  finally show ?thesis .
qed

lemma DnsName_new_case:
  assumes "is_ascii s" "is_ascii t" "map ascii_lower s = map ascii_lower t"
  shows "DnsName_new U s = DnsName_new U t"
  unfolding DnsName_new_def Let_def new_labels_ascii [OF assms(1)] new_labels_ascii [OF assms(2)]
    ascii_lower_eq_iff [OF assms(3)] assms(3) by (rule refl)

section \<open>The tree of names\<close>

lemma is_subdomain_of_iff: "is_subdomain_of a b \<longleftrightarrow> (\<exists>p. labels a = p @ labels b)"
proof
  assume "is_subdomain_of a b"
  then show "\<exists>p. labels a = p @ labels b"
    by (metis append_take_drop_id is_subdomain_of_def)
qed (auto simp: is_subdomain_of_def)

lemma is_subdomain_of_refl [simp]: "is_subdomain_of a a"
  by (simp add: is_subdomain_of_iff)

lemma is_subdomain_of_trans:
  "is_subdomain_of a b \<Longrightarrow> is_subdomain_of b c \<Longrightarrow> is_subdomain_of a c"
  by (auto simp: is_subdomain_of_iff)

lemma is_subdomain_of_antisym:
  "is_subdomain_of a b \<Longrightarrow> is_subdomain_of b a \<Longrightarrow> a = b"
  by (auto simp: is_subdomain_of_iff DnsName.expand)

lemma is_subdomain_of_chain:
  assumes "is_subdomain_of n a" "is_subdomain_of n b" "label_count a \<le> label_count b"
  shows "is_subdomain_of b a"
proof -
  obtain p q where "labels n = p @ labels a" "labels n = q @ labels b"
    using assms(1,2) by (auto simp: is_subdomain_of_iff)
  then have "q @ labels b = p @ labels a" by simp
  then obtain us where "labels b = us @ labels a \<or> us @ labels b = labels a"
    by (auto simp: append_eq_append_conv2)
  moreover have "us @ labels b = labels a \<Longrightarrow> us = []"
    using assms(3) unfolding label_count_def by (metis append_Nil append_eq_append_conv le_add2 le_antisym length_append)
  ultimately show ?thesis
    unfolding is_subdomain_of_iff by fastforce
qed

lemma parent_Some:
  "parent n = Some m \<longleftrightarrow> (\<exists>l. labels n = l # labels m)"
  by (cases n; cases m; cases "labels n") (auto simp: parent_def DnsName_root_def)

section \<open>Properties\<close>

lemma loop_cycle:
  assumes "\<forall>p \<in> S. p < length data \<and> data ! p \<noteq> 0"
    and "\<forall>p \<in> S. unat (data ! p) < 192 \<longrightarrow>
      p + 1 + unat (data ! p) \<le> length data \<and> p + 1 + unat (data ! p) \<in> S"
    and "\<forall>p \<in> S. 192 \<le> unat (data ! p) \<longrightarrow> p + 1 < length data \<and>
      (unat (data ! p) - 192) * 256 + unat (data ! (p + 1)) \<in> S"
  shows "cur \<in> S \<Longrightarrow> k \<le> MAX_JUMPS \<Longrightarrow>
    fst (DnsName_parse_loop U data ls j cur k off) = Err PointerLoop"
proof (induction ls j cur k off rule: loop_induct [where U = U and data = data])
  case (short ls j cur k off)
  then show ?case using assms(1) by fastforce
next
  case (finish ls j cur k off)
  then show ?case using assms(1) by blast
next
  case (label ls j cur k off n)
  then show ?case using assms(2) by (auto simp: loop_label)
next
  case (pointer ls j cur k off p)
  then have "cur + 1 < length data" "p \<in> S" "p < length data"
    using assms(1,3) by blast+
  then show ?case using pointer by (auto simp: loop_pointer Let_def)
qed

text \<open>
  C18. The parser reads exactly the names that \<open>name_at\<close> finds in the packet: it returns a name
  if and only if \<open>name_at\<close> reads its labels at the offset, through at most 128 compression pointers.
\<close>

theorem DnsName_parse_reads:
  "fst (DnsName_parse U data off) = Ok n \<longleftrightarrow> (\<exists>k. k \<le> MAX_JUMPS \<and> name_at U data off k (labels n))"
proof
  assume "fst (DnsName_parse U data off) = Ok n"
  from loop_sound [OF this [unfolded DnsName_parse_def]]
  show "\<exists>k. k \<le> MAX_JUMPS \<and> name_at U data off k (labels n)" by auto
next
  assume "\<exists>k. k \<le> MAX_JUMPS \<and> name_at U data off k (labels n)"
  then show "fst (DnsName_parse U data off) = Ok n"
    using loop_complete [where k = 0 and acc = "[]"] by (auto simp: DnsName_parse_def)
qed

text \<open>
  C19. Whatever the packet holds, the name parser does not panic: every byte and every label is
  read inside the packet (the reads of the model panic outside it, as those of the code do). It
  leaves the offset inside the packet and never before where it was, and a name that is read has
  moved it on.
\<close>

theorem DnsName_parse_safe:
  assumes "off \<le> length data" "DnsName_parse U data off = (r, off')"
  shows "r \<noteq> Panic \<and> off \<le> off' \<and> off' \<le> length data \<and> (is_ok r \<longrightarrow> off < off')"
proof -
  have "r \<noteq> Panic" using DnsName_parse_no_panic [of U data off] assms(2) by simp
  moreover have "off \<le> off' \<and> off' \<le> length data" by (rule nm.within [OF assms])
  moreover have "off < off'" if "is_ok r"
  proof -
    obtain n where "r = Ok n" using \<open>is_ok r\<close> by (auto simp: is_ok_def split: res.splits)
    then show ?thesis using nm.dec_size [OF assms(1)] assms(2) by fastforce
  qed
  ultimately show ?thesis by blast
qed

theorem DnsName_parse_safe_witness:
  "fst (DnsName_parse plain [3, 99, 111] 0) \<noteq> Panic"
  using DnsName_parse_safe [of 0 "[3, 99, 111]" plain "fst (DnsName_parse plain [3, 99, 111] 0)"
      "snd (DnsName_parse plain [3, 99, 111] 0)"] by simp

text \<open>
  C20. Compression loops are detected: from a position of any set of positions that labels and
  pointers never leave and that holds no end of a name, the parser returns \<open>PointerLoop\<close>.
\<close>

theorem DnsName_parse_cycle:
  assumes "\<forall>p \<in> S. p < length data \<and> data ! p \<noteq> 0"
    and "\<forall>p \<in> S. unat (data ! p) < 192 \<longrightarrow>
      p + 1 + unat (data ! p) \<le> length data \<and> p + 1 + unat (data ! p) \<in> S"
    and "\<forall>p \<in> S. 192 \<le> unat (data ! p) \<longrightarrow> p + 1 < length data \<and>
      (unat (data ! p) - 192) * 256 + unat (data ! (p + 1)) \<in> S"
    and "off \<in> S"
  shows "fst (DnsName_parse U data off) = Err PointerLoop"
  unfolding DnsName_parse_def by (rule loop_cycle [OF assms]) simp

theorem DnsName_parse_cycle_witness:
  "fst (DnsName_parse plain [1, 97, 192, 4, 192, 0] 0) = Err PointerLoop"
  by (rule DnsName_parse_cycle [where S = "{0, 2, 4}"]) simp_all

text \<open>
  C21. A name that \<open>DnsName::new\<close> accepts keeps the limits of RFC 1035: no label over 63
  bytes, and a wire form of at most 255.
\<close>

theorem DnsName_new_within_limits:
  assumes "DnsName_new U s = Ok n"
  shows "(\<forall>l \<in> set (labels n). length l \<le> 63) \<and> length (DnsName_to_wire n) \<le> 255"
  by (rule DnsName_new_limits [OF assms])

theorem DnsName_new_within_limits_witness:
  "length (DnsName_to_wire (DnsName [[97], [98]])) \<le> 255"
proof -
  have "DnsName_new plain [97, 46, 98] = Ok (DnsName [[97], [98]])"
    by code_simp
  from DnsName_new_within_limits [OF this] show ?thesis by simp
qed

text \<open>
  C22. Wire round trip: a name made from ASCII text without empty labels is written in at most
  255 bytes that the parser, at that place of any packet, reads back as the same name, leaving
  the offset behind it.
\<close>

theorem DnsName_wire_roundtrip:
  assumes "DnsName_new U s = Ok n" "is_ascii s" "[] \<notin> set (labels n)"
  shows "DnsName_parse U (pre @ DnsName_to_wire n @ post) (length pre)
    = (Ok n, length pre + length (DnsName_to_wire n))"
  by (rule nm.dec_enc_here [OF DnsName_new_wf [OF assms]])

theorem DnsName_wire_roundtrip_witness:
  "DnsName_parse plain
     ([7] @ DnsName_to_wire (DnsName [[97], [98]]) @ [9]) (length [7 :: u8])
   = (Ok (DnsName [[97], [98]]), length [7 :: u8] + length (DnsName_to_wire (DnsName [[97], [98]])))"
proof (rule DnsName_wire_roundtrip)
  show "DnsName_new plain [65, 46, 98, 46] = Ok (DnsName [[97], [98]])"
    by code_simp
qed (simp_all add: is_ascii_def)

text \<open>
  C23. Text round trip: a name whose labels are not empty, hold no dot, are in lower case and have at
  most 63 bytes, and whose wire form has at most 255, is printed, with and without the final dot,
  as a text from which \<open>DnsName::new\<close> makes the same name. Names the wire parser returns need not be
  such names.
\<close>

theorem DnsName_text_roundtrip:
  assumes "\<forall>l \<in> set (labels n). l \<noteq> [] \<and> dot \<notin> set l \<and> to_lowercase U l = l \<and> length l \<le> 63"
    and "length (DnsName_to_wire n) \<le> 255"
  shows "DnsName_new U (to_dotted n) = Ok n \<and> DnsName_new U (DnsName_fmt n) = Ok n"
proof (cases "labels n = []")
  case True
  then show ?thesis by (cases n) (simp add: DnsName_new_def to_dotted_def DnsName_fmt_def)
next
  case False
  have len: "sum_list (map (\<lambda>l. length l + 1) (labels n)) + 1 \<le> 255"
    using assms(2) by (simp add: DnsName_to_wire_length)
  show ?thesis
    using DnsName_new_join [OF False assms(1) len] False
    by (cases n) (simp add: to_dotted_def DnsName_fmt_def)
qed

theorem DnsName_text_roundtrip_witness:
  "DnsName_new plain (to_dotted (DnsName [[97], [98]]))
     = Ok (DnsName [[97], [98]])"
  using DnsName_text_roundtrip [of "DnsName [[97], [98]]" "plain"]
  by (simp add: DnsName_to_wire_def to_lowercase_def is_ascii_def ascii_lower_def)

text \<open>
  C24. Names are compared without regard to ASCII case: two ASCII texts that differ only in case
  give the same name, or the same error.
\<close>

theorem DnsName_new_case_insensitive:
  assumes "is_ascii s" "is_ascii t" "map ascii_lower s = map ascii_lower t"
  shows "DnsName_new U s = DnsName_new U t"
  by (rule DnsName_new_case [OF assms])

theorem DnsName_new_case_insensitive_witness:
  "DnsName_new plain [65, 46, 98] = DnsName_new plain [97, 46, 66]"
  by (rule DnsName_new_case_insensitive) (simp_all add: is_ascii_def ascii_lower_def)

text \<open>
  C25. The relation "is a subdomain of": it holds exactly when the labels of the second name end
  the first, which is when the second name is reached by taking parents; it is a partial order,
  and the ancestors of a name form a chain ordered by the number of labels.
\<close>

theorem subdomain_order:
  "(is_subdomain_of a b \<longleftrightarrow> (\<exists>p. labels a = p @ labels b)) \<and>
   (is_subdomain_of a b \<longleftrightarrow> a = b \<or> (\<exists>c. parent a = Some c \<and> is_subdomain_of c b)) \<and>
   is_subdomain_of a a \<and>
   (is_subdomain_of a b \<and> is_subdomain_of b a \<longrightarrow> a = b) \<and>
   (is_subdomain_of a b \<and> is_subdomain_of b c \<longrightarrow> is_subdomain_of a c) \<and>
   (is_subdomain_of a b \<and> is_subdomain_of a c \<and> label_count b \<le> label_count c \<longrightarrow>
      is_subdomain_of c b)"
proof -
  have "is_subdomain_of a b \<longleftrightarrow> a = b \<or> (\<exists>c. parent a = Some c \<and> is_subdomain_of c b)"
  proof
    assume "is_subdomain_of a b"
    then obtain p where p: "labels a = p @ labels b" by (auto simp: is_subdomain_of_iff)
    show "a = b \<or> (\<exists>c. parent a = Some c \<and> is_subdomain_of c b)"
    proof (cases p)
      case (Cons l p')
      then have "parent a = Some (DnsName (p' @ labels b))" using p by (simp add: parent_Some)
      then show ?thesis by (auto simp: is_subdomain_of_iff)
    qed (use p in \<open>simp add: DnsName.expand\<close>)
  qed (auto simp: parent_Some is_subdomain_of_iff)
  moreover note is_subdomain_of_antisym [of a b] is_subdomain_of_trans [of a b c]
    is_subdomain_of_chain [of a b c] is_subdomain_of_refl [of a] is_subdomain_of_iff [of a b]
  ultimately show ?thesis by meson
qed

theorem subdomain_order_witness:
  "is_subdomain_of (DnsName [[97], [98]]) (DnsName [[98]])"
  using subdomain_order [of "DnsName [[97], [98]]" "DnsName [[98]]"] by simp

text \<open>
  The parser does not enforce those limits: it accepts a packet whose name has a label of
  100 bytes (the length byte is only tested for the pointer bits), which \<open>DnsName::new\<close> rejects.
\<close>

theorem parse_accepts_long_label:
  "\<exists>n. fst (DnsName_parse U ([100] @ replicate 100 97 @ [0]) 0) = Ok n \<and>
     labels n = [replicate 100 97] \<and>
     DnsName_new U (DnsName_fmt n) = Err LabelTooLong"
proof -
  let ?l = "replicate 100 (97 :: u8)"
  have a: "is_ascii ?l" by (simp add: is_ascii_def list_all_iff)
  then have low: "to_lowercase U ?l = ?l" by (simp add: to_lowercase_def ascii_lower_def)
  have "wf_name U (DnsName [?l])"
    using a low ascii_valid_utf8 by (simp add: wf_name_def wf_label_def)
  from nm.dec_enc_here [OF this, of "[]" "[]"]
  have "fst (DnsName_parse U ([100] @ ?l @ [0]) 0) = Ok (DnsName [?l])"
    by (simp add: DnsName_to_wire_def)
  moreover have "?l \<noteq> [dot]" by (auto dest: arg_cong [where f = length])
  moreover have "strip_suffix dot ?l = ?l" by (simp add: strip_suffix_def)
  moreover have "split_on dot ?l = [?l]" by (rule split_on_no_sep) simp
  ultimately show ?thesis
    using low by (intro exI [of _ "DnsName [?l]"]) (simp add: DnsName_new_def DnsName_fmt_def Let_def)
qed

text \<open>
  \<open>DnsName::new\<close> accepts empty labels, and the wire form of such a name is read back as
  another name: \<open>a..b\<close> comes back as \<open>a\<close>.
\<close>

theorem new_accepts_empty_label:
  "\<exists>n. DnsName_new U [97, 46, 46, 98] = Ok n \<and> labels n = [[97], [], [98]] \<and>
     fst (DnsName_parse U (DnsName_to_wire n) 0) = Ok (DnsName [[97]])"
proof -
  have new: "DnsName_new U [97, 46, 46, 98] = Ok (DnsName [[97], [], [98]])"
    by (simp add: DnsName_new_def strip_suffix_def Let_def to_lowercase_def is_ascii_def ascii_lower_def)
  have "wf_name U (DnsName [[97]])"
    by (simp add: wf_name_def wf_label_def to_lowercase_def is_ascii_def ascii_lower_def
        ascii_valid_utf8)
  from nm.dec_enc_here [OF this, of "[]" "[1, 98, 0]"] new show ?thesis
    by (intro exI [of _ "DnsName [[97], [], [98]]"]) (simp add: DnsName_to_wire_def)
qed

end
