(* ===== verification/Rust_Net.thy ===== *)
theory Rust_Net
  imports Rust_Str
begin

text \<open>
  The address types of \<open>std::net\<close> and their parsers. An address is its octets in network order,
  four for \<open>Ipv4Addr\<close> and sixteen for \<open>Ipv6Addr\<close>. The parsers follow the recursive descent of
  the standard library: a reader takes the rest of the input and gives the value with what is
  left, or \<open>None\<close>, and then its caller goes on from where it stood.
\<close>

datatype Ipv4Addr = Ipv4Addr u8 u8 u8 u8

datatype Ipv6Addr = Ipv6Addr (octets6: "u8 list")

fun octets4 :: "Ipv4Addr \<Rightarrow> bytes" where
  "octets4 (Ipv4Addr a b c d) = [a, b, c, d]"

section \<open>Readers\<close>

type_synonym 'a reader = "rstr \<Rightarrow> ('a \<times> rstr) option"

definition to_digit :: "nat \<Rightarrow> u8 \<Rightarrow> nat option" where
  "to_digit radix b =
     (let n = unat b;
          d = (if 48 \<le> n \<and> n \<le> 57 then n - 48
               else if 97 \<le> n \<and> n \<le> 122 then n - 97 + 10
               else if 65 \<le> n \<and> n \<le> 90 then n - 65 + 10 else radix)
      in if d < radix then Some d else None)"

definition read_number :: "nat \<Rightarrow> nat \<Rightarrow> bool \<Rightarrow> nat \<Rightarrow> nat reader" where
  "read_number radix max_digits allow_zero_prefix limit s =
     (let digits = takeWhile (\<lambda>b. to_digit radix b \<noteq> None) s;
          value = foldl (\<lambda>n b. n * radix + the (to_digit radix b)) 0 digits
      in if length digits > max_digits then None
         else if digits = [] then None
         else if \<not> allow_zero_prefix \<and> hd digits = 48 \<and> length digits > 1 then None
         else if value > limit then None
         else Some (value, dropWhile (\<lambda>b. to_digit radix b \<noteq> None) s))"

fun read_given_char :: "u8 \<Rightarrow> rstr \<Rightarrow> rstr option" where
  "read_given_char c [] = None"
| "read_given_char c (x # xs) = (if x = c then Some xs else None)"

definition read_separator :: "u8 \<Rightarrow> nat \<Rightarrow> 'a reader \<Rightarrow> 'a reader" where
  "read_separator sep index inner s =
     (if index > 0 then Option.bind (read_given_char sep s) inner else inner s)"

definition read_octet :: "nat \<Rightarrow> u8 reader" where
  "read_octet i s =
     map_option (\<lambda>(n, s). (of_nat n, s)) (read_separator dot i (read_number 10 3 False 255) s)"

definition read_ipv4 :: "Ipv4Addr reader" where
  "read_ipv4 s =
     Option.bind (read_octet 0 s) (\<lambda>(a, s). Option.bind (read_octet 1 s) (\<lambda>(b, s).
     Option.bind (read_octet 2 s) (\<lambda>(c, s). Option.bind (read_octet 3 s) (\<lambda>(d, s).
     Some (Ipv4Addr a b c d, s)))))"

abbreviation colon :: u8 where "colon \<equiv> 58"

text \<open>The groups from index \<open>i\<close> on, whether they end in an embedded IPv4 address, and the rest.\<close>

function read_groups :: "nat \<Rightarrow> nat \<Rightarrow> rstr \<Rightarrow> u16 list \<times> bool \<times> rstr" where
  "read_groups i limit s =
     (if i \<ge> limit then ([], False, s)
      else case (if i + 1 < limit then read_separator colon i read_ipv4 s else None) of
        Some (Ipv4Addr a b c d, s') \<Rightarrow> ([u16_from_be_bytes a b, u16_from_be_bytes c d], True, s')
      | None \<Rightarrow>
          (case read_separator colon i (read_number 16 4 True 65535) s of
             Some (g, s') \<Rightarrow>
               (case read_groups (i + 1) limit s' of (gs, v4, s'') \<Rightarrow> (of_nat g # gs, v4, s''))
           | None \<Rightarrow> ([], False, s)))"
  by pat_completeness auto
termination
  by (relation "measure (\<lambda>(i, limit, s). limit - i)") auto

declare read_groups.simps [simp del]

definition ipv6_of_groups :: "u16 list \<Rightarrow> Ipv6Addr" where
  "ipv6_of_groups gs = Ipv6Addr (concat (map u16_to_be_bytes gs))"

definition read_ipv6 :: "Ipv6Addr reader" where
  "read_ipv6 s =
     (case read_groups 0 8 s of (head, head_ipv4, s) \<Rightarrow>
        if length head = 8 then Some (ipv6_of_groups head, s)
        else if head_ipv4 then None
        else Option.bind (read_given_char colon s) (\<lambda>s.
             Option.bind (read_given_char colon s) (\<lambda>s.
               (case read_groups 0 (8 - (length head + 1)) s of (tail, _, s) \<Rightarrow>
                  Some (ipv6_of_groups
                    (head @ replicate (8 - length head - length tail) 0 @ tail), s)))))"

text \<open>\<open>str::parse\<close>: the whole input has to be used up; a dotted quad has at most fifteen bytes.\<close>

definition parse_with :: "'a reader \<Rightarrow> rstr \<Rightarrow> 'a option" where
  "parse_with r s = (case r s of Some (a, []) \<Rightarrow> Some a | _ \<Rightarrow> None)"

definition parse_ipv4 :: "rstr \<Rightarrow> Ipv4Addr option" where
  "parse_ipv4 s = (if length s > 15 then None else parse_with read_ipv4 s)"

definition parse_ipv6 :: "rstr \<Rightarrow> Ipv6Addr option" where
  "parse_ipv6 s = parse_with read_ipv6 s"

section \<open>Lemmas\<close>

lemma octets4_length [simp]: "length (octets4 a) = 4"
  by (cases a) simp

lemma ipv6_of_groups_length [simp]: "length (octets6 (ipv6_of_groups gs)) = 2 * length gs"
  by (induction gs) (simp_all add: ipv6_of_groups_def)

lemma read_groups_length:
  "i \<le> limit \<Longrightarrow> read_groups i limit s = (gs, v4, s') \<Longrightarrow> length gs + i \<le> limit"
proof (induction i limit s arbitrary: gs v4 s' rule: read_groups.induct)
  case (1 i limit s)
  show ?case
  proof (cases "i < limit")
    case True
    note eq = "1.prems"(2) [unfolded read_groups.simps [of i limit s]]
    show ?thesis
    proof (cases "if i + 1 < limit then read_separator colon i read_ipv4 s else None")
      case None
      then show ?thesis
        using eq True "1.IH" by (fastforce split: option.splits prod.splits)
    next
      case (Some p)
      then show ?thesis
        using eq True by (auto split: if_splits prod.splits Ipv4Addr.splits)
    qed
  qed (use "1.prems" in \<open>simp add: read_groups.simps\<close>)
qed

text \<open>An IPv6 address that was read has its sixteen octets.\<close>

lemma parse_ipv6_length: "parse_ipv6 s = Some a \<Longrightarrow> length (octets6 a) = 16"
proof -
  assume "parse_ipv6 s = Some a"
  then obtain r where r: "read_ipv6 s = Some (a, r)"
    by (auto simp: parse_ipv6_def parse_with_def split: option.splits list.splits)
  obtain hs v4 s1 where h: "read_groups 0 8 s = (hs, v4, s1)" by (metis prod_cases3)
  have hl: "length hs \<le> 8" using read_groups_length [OF _ h] by simp
  show ?thesis
  proof (cases "length hs = 8")
    case False
    let ?t = "\<lambda>s2. fst (read_groups 0 (8 - (length hs + 1)) s2)"
    obtain s2 where s2: "a = ipv6_of_groups (hs @ replicate (8 - length hs - length (?t s2)) 0 @ ?t s2)"
      using r h False by (auto simp: read_ipv6_def bind_eq_Some_conv case_prod_unfold split: if_splits)
    have "length (?t s2) + 0 \<le> 8 - (length hs + 1)"
      using read_groups_length [of 0 "8 - (length hs + 1)" s2] by (metis le0 prod.collapse)
    then show ?thesis using s2 False hl by simp
  qed (use r h in \<open>auto simp: read_ipv6_def\<close>)
qed

end
