(* ===== verification/Rdata.thy ===== *)
theory Rdata
  imports Name Rust_Net
begin

text \<open>
  \<open>src/dns/rdata.rs\<close>: record types and record data. \<open>RData_parse\<close> reads the data of a
  record of a given type and length, \<open>RData_serialize\<close> writes it. Both enums of the source
  have constructors of the same names, so they are written with their type, as in Rust:
  \<open>RecordType.A\<close>, \<open>RData.A\<close>.
\<close>

section \<open>Record types\<close>

datatype RecordType =
    A | AAAA | CNAME | MX | TXT | NS | SOA | SRV | PTR | DS | DNSKEY | RRSIG | NSEC | OPT
  | Unknown u16

definition RecordType_from_u16 :: "u16 \<Rightarrow> RecordType" where
  "RecordType_from_u16 val =
     (if val = 1 then RecordType.A
      else if val = 28 then RecordType.AAAA
      else if val = 5 then RecordType.CNAME
      else if val = 15 then RecordType.MX
      else if val = 16 then RecordType.TXT
      else if val = 2 then RecordType.NS
      else if val = 6 then RecordType.SOA
      else if val = 33 then RecordType.SRV
      else if val = 12 then RecordType.PTR
      else if val = 43 then RecordType.DS
      else if val = 48 then RecordType.DNSKEY
      else if val = 46 then RecordType.RRSIG
      else if val = 47 then RecordType.NSEC
      else if val = 41 then RecordType.OPT
      else RecordType.Unknown val)"

fun RecordType_to_u16 :: "RecordType \<Rightarrow> u16" where
  "RecordType_to_u16 RecordType.A = 1"
| "RecordType_to_u16 RecordType.AAAA = 28"
| "RecordType_to_u16 RecordType.CNAME = 5"
| "RecordType_to_u16 RecordType.MX = 15"
| "RecordType_to_u16 RecordType.TXT = 16"
| "RecordType_to_u16 RecordType.NS = 2"
| "RecordType_to_u16 RecordType.SOA = 6"
| "RecordType_to_u16 RecordType.SRV = 33"
| "RecordType_to_u16 RecordType.PTR = 12"
| "RecordType_to_u16 RecordType.DS = 43"
| "RecordType_to_u16 RecordType.DNSKEY = 48"
| "RecordType_to_u16 RecordType.RRSIG = 46"
| "RecordType_to_u16 RecordType.NSEC = 47"
| "RecordType_to_u16 RecordType.OPT = 41"
| "RecordType_to_u16 (RecordType.Unknown n) = n"

definition RecordType_from_str_type :: "unicode \<Rightarrow> rstr \<Rightarrow> RecordType option" where
  "RecordType_from_str_type U s =
     (let t = to_uppercase U s in
      if t = lit ''A'' then Some RecordType.A
      else if t = lit ''AAAA'' then Some RecordType.AAAA
      else if t = lit ''CNAME'' then Some RecordType.CNAME
      else if t = lit ''MX'' then Some RecordType.MX
      else if t = lit ''TXT'' then Some RecordType.TXT
      else if t = lit ''NS'' then Some RecordType.NS
      else if t = lit ''SOA'' then Some RecordType.SOA
      else if t = lit ''SRV'' then Some RecordType.SRV
      else if t = lit ''PTR'' then Some RecordType.PTR
      else if t = lit ''DS'' then Some RecordType.DS
      else if t = lit ''DNSKEY'' then Some RecordType.DNSKEY
      else None)"

fun RecordType_fmt :: "RecordType \<Rightarrow> rstr" where
  "RecordType_fmt RecordType.A = lit ''A''"
| "RecordType_fmt RecordType.AAAA = lit ''AAAA''"
| "RecordType_fmt RecordType.CNAME = lit ''CNAME''"
| "RecordType_fmt RecordType.MX = lit ''MX''"
| "RecordType_fmt RecordType.TXT = lit ''TXT''"
| "RecordType_fmt RecordType.NS = lit ''NS''"
| "RecordType_fmt RecordType.SOA = lit ''SOA''"
| "RecordType_fmt RecordType.SRV = lit ''SRV''"
| "RecordType_fmt RecordType.PTR = lit ''PTR''"
| "RecordType_fmt RecordType.DS = lit ''DS''"
| "RecordType_fmt RecordType.DNSKEY = lit ''DNSKEY''"
| "RecordType_fmt RecordType.RRSIG = lit ''RRSIG''"
| "RecordType_fmt RecordType.NSEC = lit ''NSEC''"
| "RecordType_fmt RecordType.OPT = lit ''OPT''"
| "RecordType_fmt (RecordType.Unknown n) = lit ''TYPE'' @ show_nat (unat n)"

section \<open>Record data\<close>

text \<open>The fields of a variant stand in the order of the source's declaration.\<close>

datatype RData =
    A Ipv4Addr
  | AAAA Ipv6Addr
  | CNAME DnsName
  | MX u16 DnsName \<comment> \<open>preference, exchange\<close>
  | TXT "rstr list"
  | NS DnsName
  | SOA DnsName DnsName u32 u32 u32 u32 u32
      \<comment> \<open>mname, rname, serial, refresh, retry, expire, minimum\<close>
  | SRV u16 u16 u16 DnsName \<comment> \<open>priority, weight, port, target\<close>
  | PTR DnsName
  | DS u16 u8 u8 bytes \<comment> \<open>key tag, algorithm, digest type, digest\<close>
  | DNSKEY u16 u8 u8 bytes \<comment> \<open>flags, protocol, algorithm, public key\<close>
  | RRSIG RecordType u8 u8 u32 u32 u32 u16 DnsName bytes
      \<comment> \<open>type covered, algorithm, labels, original ttl, expiration, inception, key tag,
         signer name, signature\<close>
  | NSEC DnsName bytes \<comment> \<open>next domain, type bitmaps\<close>
  | OPT bytes
  | Unknown bytes

section \<open>Reading record data\<close>

text \<open>The loop of the TXT branch: character strings up to the end of the record.\<close>

function txt_loop :: "bytes \<Rightarrow> nat \<Rightarrow> nat \<Rightarrow> rstr list \<Rightarrow> (rstr list, DnsError) res" where
  "txt_loop data end pos texts =
     (if pos < end then
        (case u8_at data pos of
           Ok b \<Rightarrow>
             (let txt_len = unat b; pos' = pos + 1 in
              if pos' + txt_len > end then Err (ParseError (lit ''TXT record overflow''))
              else (case slice_at data pos' (pos' + txt_len) of
                      Ok t \<Rightarrow> txt_loop data end (pos' + txt_len) (texts @ [from_utf8_lossy t])
                    | Err e \<Rightarrow> Err e | Panic \<Rightarrow> Panic))
         | Err e \<Rightarrow> Err e | Panic \<Rightarrow> Panic)
      else Ok texts)"
  by pat_completeness auto
termination
  by (relation "measure (\<lambda>(data, end, pos, texts). end - pos)") auto

declare txt_loop.simps [simp del]

abbreviation parse_error :: "string \<Rightarrow> DnsError" where
  "parse_error s \<equiv> ParseError (lit s)"

text \<open>The branches of the \<open>match record_type\<close>, each with the end of the record.\<close>

definition parse_A :: "bytes \<Rightarrow> u16 \<Rightarrow> nat \<Rightarrow> (RData, DnsError) parser" where
  "parse_A data rdlength end =
     bindP (rejectP (\<lambda>_. rdlength \<noteq> 4) (parse_error ''Invalid A record length'')) (\<lambda>_.
     bindP (rd8 data 0) (\<lambda>a. bindP (rd8 data 1) (\<lambda>b.
     bindP (rd8 data 2) (\<lambda>c. bindP (rd8 data 3) (\<lambda>d.
     bindP (seekP end) (\<lambda>_.
     retP (RData.A (Ipv4Addr a b c d))))))))"

definition parse_AAAA :: "bytes \<Rightarrow> u16 \<Rightarrow> nat \<Rightarrow> (RData, DnsError) parser" where
  "parse_AAAA data rdlength end =
     bindP (rejectP (\<lambda>_. rdlength \<noteq> 16) (parse_error ''Invalid AAAA record length'')) (\<lambda>_.
     bindP (rd_bytes data 16) (\<lambda>octets.
     bindP (seekP end) (\<lambda>_.
     retP (RData.AAAA (Ipv6Addr octets)))))"

definition parse_name_data ::
  "unicode \<Rightarrow> (DnsName \<Rightarrow> RData) \<Rightarrow> bytes \<Rightarrow> nat \<Rightarrow> (RData, DnsError) parser" where
  "parse_name_data U f data end =
     bindP (DnsName_parse U data) (\<lambda>name.
     bindP (seekP end) (\<lambda>_.
     retP (f name)))"

definition parse_MX :: "unicode \<Rightarrow> bytes \<Rightarrow> u16 \<Rightarrow> nat \<Rightarrow> (RData, DnsError) parser" where
  "parse_MX U data rdlength end =
     bindP (rejectP (\<lambda>_. rdlength < 3) (parse_error ''Invalid MX record'')) (\<lambda>_.
     bindP (rd16 data 0) (\<lambda>preference.
     bindP (advP 2) (\<lambda>_.
     bindP (DnsName_parse U data) (\<lambda>exchange.
     bindP (seekP end) (\<lambda>_.
     retP (RData.MX preference exchange))))))"

definition parse_TXT :: "bytes \<Rightarrow> nat \<Rightarrow> (RData, DnsError) parser" where
  "parse_TXT data end =
     bindP (liftP (\<lambda>off. txt_loop data end off [])) (\<lambda>texts.
     bindP (seekP end) (\<lambda>_.
     retP (RData.TXT texts)))"

definition parse_SOA :: "unicode \<Rightarrow> bytes \<Rightarrow> nat \<Rightarrow> (RData, DnsError) parser" where
  "parse_SOA U data end =
     bindP (DnsName_parse U data) (\<lambda>mname.
     bindP (DnsName_parse U data) (\<lambda>rname.
     bindP (rejectP (\<lambda>off. off + 20 > end) (parse_error ''Invalid SOA record'')) (\<lambda>_.
     bindP (rd32 data 0) (\<lambda>serial.
     bindP (rd32 data 4) (\<lambda>refresh.
     bindP (rd32 data 8) (\<lambda>retry.
     bindP (rd32 data 12) (\<lambda>expire.
     bindP (rd32 data 16) (\<lambda>minimum.
     bindP (seekP end) (\<lambda>_.
     retP (RData.SOA mname rname serial refresh retry expire minimum))))))))))"

definition parse_SRV :: "unicode \<Rightarrow> bytes \<Rightarrow> u16 \<Rightarrow> nat \<Rightarrow> (RData, DnsError) parser" where
  "parse_SRV U data rdlength end =
     bindP (rejectP (\<lambda>_. rdlength < 7) (parse_error ''Invalid SRV record'')) (\<lambda>_.
     bindP (rd16 data 0) (\<lambda>priority.
     bindP (rd16 data 2) (\<lambda>weight.
     bindP (rd16 data 4) (\<lambda>port.
     bindP (advP 6) (\<lambda>_.
     bindP (DnsName_parse U data) (\<lambda>target.
     bindP (seekP end) (\<lambda>_.
     retP (RData.SRV priority weight port target))))))))"

definition parse_DS :: "bytes \<Rightarrow> u16 \<Rightarrow> nat \<Rightarrow> (RData, DnsError) parser" where
  "parse_DS data rdlength end =
     bindP (rejectP (\<lambda>_. rdlength < 5) (parse_error ''Invalid DS record'')) (\<lambda>_.
     bindP (rd16 data 0) (\<lambda>key_tag.
     bindP (rd8 data 2) (\<lambda>algorithm.
     bindP (rd8 data 3) (\<lambda>digest_type.
     bindP (rd_to data 4 end) (\<lambda>digest.
     bindP (seekP end) (\<lambda>_.
     retP (RData.DS key_tag algorithm digest_type digest)))))))"

definition parse_DNSKEY :: "bytes \<Rightarrow> u16 \<Rightarrow> nat \<Rightarrow> (RData, DnsError) parser" where
  "parse_DNSKEY data rdlength end =
     bindP (rejectP (\<lambda>_. rdlength < 5) (parse_error ''Invalid DNSKEY record'')) (\<lambda>_.
     bindP (rd16 data 0) (\<lambda>flags.
     bindP (rd8 data 2) (\<lambda>protocol.
     bindP (rd8 data 3) (\<lambda>algorithm.
     bindP (rd_to data 4 end) (\<lambda>public_key.
     bindP (seekP end) (\<lambda>_.
     retP (RData.DNSKEY flags protocol algorithm public_key)))))))"

definition parse_RRSIG :: "unicode \<Rightarrow> bytes \<Rightarrow> u16 \<Rightarrow> nat \<Rightarrow> (RData, DnsError) parser" where
  "parse_RRSIG U data rdlength end =
     bindP (rejectP (\<lambda>_. rdlength < 19) (parse_error ''Invalid RRSIG record'')) (\<lambda>_.
     bindP (rd16 data 0) (\<lambda>type_covered.
     bindP (rd8 data 2) (\<lambda>algorithm.
     bindP (rd8 data 3) (\<lambda>labels.
     bindP (rd32 data 4) (\<lambda>original_ttl.
     bindP (rd32 data 8) (\<lambda>signature_expiration.
     bindP (rd32 data 12) (\<lambda>signature_inception.
     bindP (rd16 data 16) (\<lambda>key_tag.
     bindP (advP 18) (\<lambda>_.
     bindP (DnsName_parse U data) (\<lambda>signer_name.
     bindP (rd_to data 0 end) (\<lambda>signature.
     bindP (seekP end) (\<lambda>_.
     retP (RData.RRSIG (RecordType_from_u16 type_covered) algorithm labels original_ttl
       signature_expiration signature_inception key_tag signer_name signature)))))))))))))"

definition parse_NSEC :: "unicode \<Rightarrow> bytes \<Rightarrow> nat \<Rightarrow> (RData, DnsError) parser" where
  "parse_NSEC U data end =
     bindP (DnsName_parse U data) (\<lambda>next_domain.
     bindP (rd_to data 0 end) (\<lambda>type_bitmaps.
     bindP (seekP end) (\<lambda>_.
     retP (RData.NSEC next_domain type_bitmaps))))"

definition parse_raw :: "(bytes \<Rightarrow> RData) \<Rightarrow> bytes \<Rightarrow> nat \<Rightarrow> (RData, DnsError) parser" where
  "parse_raw f data end =
     bindP (rd_to data 0 end) (\<lambda>raw.
     bindP (seekP end) (\<lambda>_.
     retP (f raw)))"

definition parse_rdata_of ::
  "unicode \<Rightarrow> RecordType \<Rightarrow> bytes \<Rightarrow> u16 \<Rightarrow> nat \<Rightarrow> (RData, DnsError) parser" where
  "parse_rdata_of U record_type data rdlength end =
     (case record_type of
        RecordType.A \<Rightarrow> parse_A data rdlength end
      | RecordType.AAAA \<Rightarrow> parse_AAAA data rdlength end
      | RecordType.CNAME \<Rightarrow> parse_name_data U RData.CNAME data end
      | RecordType.NS \<Rightarrow> parse_name_data U RData.NS data end
      | RecordType.PTR \<Rightarrow> parse_name_data U RData.PTR data end
      | RecordType.MX \<Rightarrow> parse_MX U data rdlength end
      | RecordType.TXT \<Rightarrow> parse_TXT data end
      | RecordType.SOA \<Rightarrow> parse_SOA U data end
      | RecordType.SRV \<Rightarrow> parse_SRV U data rdlength end
      | RecordType.DS \<Rightarrow> parse_DS data rdlength end
      | RecordType.DNSKEY \<Rightarrow> parse_DNSKEY data rdlength end
      | RecordType.RRSIG \<Rightarrow> parse_RRSIG U data rdlength end
      | RecordType.NSEC \<Rightarrow> parse_NSEC U data end
      | RecordType.OPT \<Rightarrow> parse_raw RData.OPT data end
      | _ \<Rightarrow> parse_raw RData.Unknown data end)"

definition RData_parse ::
  "unicode \<Rightarrow> RecordType \<Rightarrow> bytes \<Rightarrow> u16 \<Rightarrow> (RData, DnsError) parser" where
  "RData_parse U record_type data rdlength = (\<lambda>offset.
     let end = offset + unat rdlength in
     if end > length data then (Err BufferTooShort, offset)
     else parse_rdata_of U record_type data rdlength end offset)"

section \<open>Writing record data\<close>

text \<open>\<open>slice::chunks(n)\<close>\<close>

function chunks :: "nat \<Rightarrow> 'a list \<Rightarrow> 'a list list" where
  "chunks n xs = (if xs = [] \<or> n = 0 then [] else take n xs # chunks n (drop n xs))"
  by pat_completeness auto
termination
  by (relation "measure (\<lambda>(n, xs). length xs)") auto

declare chunks.simps [simp del]

definition serialize_text :: "rstr \<Rightarrow> bytes" where
  "serialize_text text =
     concat (map (\<lambda>chunk. [of_nat (length chunk)] @ chunk) (chunks 255 text))
     @ (if text = [] then [0] else [])"

fun RData_serialize :: "RData \<Rightarrow> bytes" where
  "RData_serialize (RData.A addr) = octets4 addr"
| "RData_serialize (RData.AAAA addr) = octets6 addr"
| "RData_serialize (RData.CNAME name) = DnsName_to_wire name"
| "RData_serialize (RData.NS name) = DnsName_to_wire name"
| "RData_serialize (RData.PTR name) = DnsName_to_wire name"
| "RData_serialize (RData.MX preference exchange) =
     u16_to_be_bytes preference @ DnsName_to_wire exchange"
| "RData_serialize (RData.TXT texts) = concat (map serialize_text texts)"
| "RData_serialize (RData.SOA mname rname serial refresh retry expire minimum) =
     DnsName_to_wire mname @ DnsName_to_wire rname @ u32_to_be_bytes serial @
     u32_to_be_bytes refresh @ u32_to_be_bytes retry @ u32_to_be_bytes expire @
     u32_to_be_bytes minimum"
| "RData_serialize (RData.SRV priority weight port target) =
     u16_to_be_bytes priority @ u16_to_be_bytes weight @ u16_to_be_bytes port @
     DnsName_to_wire target"
| "RData_serialize (RData.DS key_tag algorithm digest_type digest) =
     u16_to_be_bytes key_tag @ [algorithm] @ [digest_type] @ digest"
| "RData_serialize (RData.DNSKEY flags protocol algorithm public_key) =
     u16_to_be_bytes flags @ [protocol] @ [algorithm] @ public_key"
| "RData_serialize (RData.RRSIG type_covered algorithm sig_labels original_ttl signature_expiration
       signature_inception key_tag signer_name signature) =
     u16_to_be_bytes (RecordType_to_u16 type_covered) @ [algorithm] @ [sig_labels] @
     u32_to_be_bytes original_ttl @ u32_to_be_bytes signature_expiration @
     u32_to_be_bytes signature_inception @ u16_to_be_bytes key_tag @
     DnsName_to_wire signer_name @ signature"
| "RData_serialize (RData.NSEC next_domain type_bitmaps) =
     DnsName_to_wire next_domain @ type_bitmaps"
| "RData_serialize (RData.OPT data) = data"
| "RData_serialize (RData.Unknown data) = data"

section \<open>Which data belongs to which type\<close>

fun rdata_matches :: "RecordType \<Rightarrow> RData \<Rightarrow> bool" where
  "rdata_matches t (RData.A _) = (t = RecordType.A)"
| "rdata_matches t (RData.AAAA a) = (t = RecordType.AAAA \<and> length (octets6 a) = 16)"
| "rdata_matches t (RData.CNAME _) = (t = RecordType.CNAME)"
| "rdata_matches t (RData.NS _) = (t = RecordType.NS)"
| "rdata_matches t (RData.PTR _) = (t = RecordType.PTR)"
| "rdata_matches t (RData.MX _ _) = (t = RecordType.MX)"
| "rdata_matches t (RData.TXT _) = (t = RecordType.TXT)"
| "rdata_matches t (RData.SOA _ _ _ _ _ _ _) = (t = RecordType.SOA)"
| "rdata_matches t (RData.SRV _ _ _ _) = (t = RecordType.SRV)"
| "rdata_matches t (RData.DS _ _ _ digest) = (t = RecordType.DS \<and> digest \<noteq> [])"
| "rdata_matches t (RData.DNSKEY _ _ _ key) = (t = RecordType.DNSKEY \<and> key \<noteq> [])"
| "rdata_matches t (RData.RRSIG _ _ _ _ _ _ _ _ _) = (t = RecordType.RRSIG)"
| "rdata_matches t (RData.NSEC _ _) = (t = RecordType.NSEC)"
| "rdata_matches t (RData.OPT _) = (t = RecordType.OPT)"
| "rdata_matches t (RData.Unknown _) = (\<exists>n. t = RecordType.Unknown n)"

definition canonical_type :: "RecordType \<Rightarrow> bool" where
  "canonical_type t = (RecordType_from_u16 (RecordType_to_u16 t) = t)"

text \<open>The names and strings inside record data that survive being written and read.\<close>

fun wf_rdata :: "unicode \<Rightarrow> RData \<Rightarrow> bool" where
  "wf_rdata U (RData.CNAME n) = wf_name U n"
| "wf_rdata U (RData.NS n) = wf_name U n"
| "wf_rdata U (RData.PTR n) = wf_name U n"
| "wf_rdata U (RData.MX _ n) = wf_name U n"
| "wf_rdata U (RData.TXT ts) = list_all (\<lambda>t. length t \<le> 255 \<and> valid_utf8 t) ts"
| "wf_rdata U (RData.SOA m r _ _ _ _ _) = (wf_name U m \<and> wf_name U r)"
| "wf_rdata U (RData.SRV _ _ _ n) = wf_name U n"
| "wf_rdata U (RData.RRSIG t _ _ _ _ _ _ n _) = (canonical_type t \<and> wf_name U n)"
| "wf_rdata U (RData.NSEC n _) = wf_name U n"
| "wf_rdata U _ = True"

section \<open>Lemmas on record types\<close>

lemma RecordType_to_from [simp]: "RecordType_to_u16 (RecordType_from_u16 w) = w"
  by (simp add: RecordType_from_u16_def)

lemma canonical_from [simp]: "canonical_type (RecordType_from_u16 w)"
  by (simp add: canonical_type_def)

lemma RecordType_from_known:
  "RecordType_from_u16 (RecordType_to_u16 t) = t \<or> (\<exists>n. t = RecordType.Unknown n)"
  by (cases t) (simp_all add: RecordType_from_u16_def)

lemma RecordType_to_u16_inj:
  "canonical_type s \<Longrightarrow> canonical_type t \<Longrightarrow> RecordType_to_u16 s = RecordType_to_u16 t \<Longrightarrow> s = t"
  by (metis canonical_type_def)

section \<open>Reading stays inside the record\<close>

lemma wp_name:
  assumes "off \<le> length data"
    and "\<And>n off'. off < off' \<Longrightarrow> off' \<le> length data \<Longrightarrow> Q (Ok n) off'"
    and "\<And>e off'. off \<le> off' \<Longrightarrow> off' \<le> length data \<Longrightarrow> Q (Err e) off'"
  shows "wpP (DnsName_parse U data) off Q"
proof (rule nm.wp_within [OF assms(1)])
  fix r off'
  assume d: "DnsName_parse U data off = (r, off')" "off \<le> off'" "off' \<le> length data"
  show "Q r off'"
  proof (cases r)
    case (Ok n)
    then show ?thesis using d nm.dec_size [OF assms(1), of U n off'] assms(2) by simp
  next
    case Panic
    then show ?thesis using d DnsName_parse_no_panic [of U data off] by simp
  qed (use d assms(3) in auto)
qed

lemma txt_loop_no_panic:
  "end \<le> length data \<Longrightarrow> txt_loop data end pos texts \<noteq> Panic"
proof (induction data "end" pos texts rule: txt_loop.induct)
  case (1 data "end" pos texts)
  show ?case
  proof (cases "pos < end")
    case True
    then have "u8_at data pos = (Ok (data ! pos) :: (u8, DnsError) res)"
      using "1.prems" by (simp add: u8_at_def)
    moreover have "pos + 1 + unat (data ! pos) \<le> end \<Longrightarrow>
        slice_at data (pos + 1) (pos + 1 + unat (data ! pos))
          = (Ok (slice (pos + 1) (pos + 1 + unat (data ! pos)) data) :: (bytes, DnsError) res)"
      using "1.prems" by (simp add: slice_at_def)
    ultimately show ?thesis
      using True "1.IH" [OF True, of "data ! pos" "unat (data ! pos)" "pos + 1"] "1.prems"
      by (subst txt_loop.simps) (auto simp: Let_def not_less)
  qed (simp add: txt_loop.simps)
qed

text \<open>What every branch guarantees, for a record that ends inside the packet.\<close>

definition rdata_post ::
  "RecordType \<Rightarrow> bytes \<Rightarrow> nat \<Rightarrow> nat \<Rightarrow> (RData, DnsError) res \<Rightarrow> nat \<Rightarrow> bool" where
  "rdata_post t data off end r off' =
     (off \<le> off' \<and> off' \<le> length data \<and>
      (\<forall>rd. r = Ok rd \<longrightarrow> off' = end \<and> rdata_matches t rd) \<and>
      (r = Panic \<longrightarrow> t = RecordType.RRSIG \<or> t = RecordType.NSEC))"

lemma rdlength_simps:
  "(w :: u16) = 4 \<longleftrightarrow> unat w = 4" "(w :: u16) = 16 \<longleftrightarrow> unat w = 16"
  "(w :: u16) < 3 \<longleftrightarrow> unat w < 3" "(w :: u16) < 5 \<longleftrightarrow> unat w < 5"
  "(w :: u16) < 7 \<longleftrightarrow> unat w < 7" "(w :: u16) < 19 \<longleftrightarrow> unat w < 19"
  by (simp_all add: word_less_nat_alt word_unat_eq_iff)

lemmas branch_simps = rdata_post_def wp_simps rdlength_simps

lemma parse_rdata_of_post:
  assumes "off + unat rdlength = end" "end \<le> length data"
  shows "wpP (parse_rdata_of U t data rdlength end) off (rdata_post t data off end)"
proof (cases t)
  case A
  then show ?thesis
    using assms by (simp add: parse_rdata_of_def parse_A_def branch_simps)
next
  case AAAA
  then show ?thesis
    using assms by (simp add: parse_rdata_of_def parse_AAAA_def branch_simps)
next
  case TXT
  then show ?thesis
    using assms txt_loop_no_panic [of "end" data off "[]"]
    by (simp add: parse_rdata_of_def parse_TXT_def branch_simps split: res.splits)
next
  case DS
  then show ?thesis
    using assms by (auto simp: parse_rdata_of_def parse_DS_def branch_simps slice_def)
next
  case DNSKEY
  then show ?thesis
    using assms by (auto simp: parse_rdata_of_def parse_DNSKEY_def branch_simps slice_def)
qed (use assms in \<open>auto simp: parse_rdata_of_def parse_name_data_def parse_MX_def parse_SOA_def
      parse_SRV_def parse_RRSIG_def parse_NSEC_def parse_raw_def branch_simps intro!: wp_name\<close>)

lemma RData_parse_post:
  assumes "off \<le> length data"
  shows "wpP (RData_parse U t data rdlength) off (rdata_post t data off (off + unat rdlength))"
  using assms parse_rdata_of_post [OF refl, of off rdlength data U t]
  by (auto simp: RData_parse_def wpP_def Let_def rdata_post_def)

section \<open>Reading back what was written\<close>

lemma chunks_short: "xs \<noteq> [] \<Longrightarrow> length xs \<le> n \<Longrightarrow> chunks n xs = [xs]"
  by (cases "n = 0") (simp_all add: chunks.simps [of n xs] chunks.simps [of n "[]"])

lemma serialize_text_short: "length t \<le> 255 \<Longrightarrow> serialize_text t = of_nat (length t) # t"
  by (cases "t = []") (simp_all add: serialize_text_def chunks_short chunks.simps [of 255 "[]"])

lemma txt_loop_serialize:
  "list_all (\<lambda>t. length t \<le> 255 \<and> valid_utf8 t) ts \<Longrightarrow> pos \<le> length data \<Longrightarrow>
   drop pos data = concat (map serialize_text ts) @ post \<Longrightarrow>
   txt_loop data (pos + length (concat (map serialize_text ts))) pos acc = Ok (acc @ ts)"
proof (induction ts arbitrary: pos acc)
  case Nil
  then show ?case by (simp add: txt_loop.simps)
next
  case (Cons t ts)
  let ?rest = "concat (map serialize_text ts)"
  have t: "length t \<le> 255" "valid_utf8 t" using Cons.prems(1) by simp_all
  have d: "drop pos data = [of_nat (length t)] @ t @ ?rest @ post"
    using Cons.prems(3) t by (simp add: serialize_text_short)
  have b: "u8_at data pos = (Ok (of_nat (length t)) :: (u8, DnsError) res)"
    using u8_at_drop [of pos data 0] Cons.prems(2) d by simp
  have u: "unat (of_nat (length t) :: u8) = length t" using t by simp
  have d1: "drop (pos + 1) data = t @ ?rest @ post" and l1: "pos + 1 \<le> length data"
    using drop_enc_step [OF d] drop_enc_length [OF Cons.prems(2) d] by simp_all
  have sl: "slice_at data (pos + 1) (pos + 1 + length t) = (Ok t :: (bytes, DnsError) res)"
    using slice_at_drop [OF l1, of 0 "length t"] d1 by simp
  have d2: "drop (pos + 1 + length t) data = ?rest @ post"
    and l2: "pos + 1 + length t \<le> length data"
    using drop_enc_step [OF d1] drop_enc_length [OF l1 d1] by simp_all
  have e: "pos + length (concat (map serialize_text (t # ts))) = pos + 1 + length t + length ?rest"
    using t by (simp add: serialize_text_short)
  have IH: "txt_loop data (pos + 1 + length t + length ?rest) (pos + 1 + length t) (acc @ [t])
      = Ok ((acc @ [t]) @ ts)"
    using Cons.IH [OF _ l2 d2] Cons.prems(1) by simp
  show ?case
    unfolding e using IH
    by (subst txt_loop.simps) (simp add: b u sl [simplified] from_utf8_lossy_valid_id [OF t(2)] Let_def)
qed

text \<open>The names inside record data, at an offset given by what stands before them.\<close>

lemma name_here:
  "wf_name U n \<Longrightarrow> off \<le> length data \<Longrightarrow> drop off data = DnsName_to_wire n @ post \<Longrightarrow>
   DnsName_parse U data off = (Ok n, off + length (DnsName_to_wire n))"
  by (rule nm.dec_enc)

lemma name_after:
  assumes "off \<le> length data" "drop off data = xs @ DnsName_to_wire n @ post" "wf_name U n"
    "k = length xs"
  shows "DnsName_parse U data (off + k) = (Ok n, off + k + length (DnsName_to_wire n))"
  using name_here [OF assms(3) drop_enc_length [OF assms(1,2)] drop_enc_step [OF assms(2)]] assms(4)
  by simp

lemma rd_to_here:
  assumes "off \<le> length data" "drop off data = xs @ ys @ post" "k = length xs"
    "e = off + k + length ys"
  shows "rd_to data k e off = (Ok ys, off)"
  using slice_at_drop [OF assms(1), of k "k + length ys"] assms(2-)
  by (simp add: rd_to_def add.assoc)

lemma parse_name_data_enc:
  assumes "off \<le> length data" "drop off data = DnsName_to_wire n @ post" "wf_name U n"
  shows "parse_name_data U f data end off = (Ok (f n), end)"
  by (simp add: parse_name_data_def parse_simps name_here [OF assms(3,1,2)])

lemma to_wire_nonempty [simp]: "DnsName_to_wire n \<noteq> []"
  by (simp add: DnsName_to_wire_def)

lemma parse_rdata_of_serialize:
  assumes wf: "wf_rdata U rd" and m: "rdata_matches t rd"
    and len: "unat rdlength = length (RData_serialize rd)" and off: "off \<le> length data"
    and d: "drop off data = RData_serialize rd @ post"
  shows "parse_rdata_of U t data rdlength (off + length (RData_serialize rd)) off
    = (Ok rd, off + length (RData_serialize rd))"
proof -
  note run = parse_rdata_of_def parse_simps off d len rdlength_simps drop_plus
  show ?thesis
  proof (cases rd)
    case (A a)
    then show ?thesis
      using m by (cases a) (simp add: run parse_A_def)
  next
    case (AAAA a)
    then have l: "length (octets6 a) = 16" using m by simp
    then have "slice_at (octets6 a @ post) 0 16 = (Ok (octets6 a) :: (bytes, DnsError) res)"
      using slice_at_prefix [of "octets6 a" post] by simp
    then show ?thesis
      using AAAA m l by (simp add: run parse_AAAA_def)
  next
    case (MX p n)
    then have "DnsName_parse U data (off + 2) = (Ok n, off + 2 + length (DnsName_to_wire n))"
      using wf d by (intro name_after [OF off, of "u16_to_be_bytes p" _ post]) simp_all
    then show ?thesis
      using MX m by (simp add: run parse_MX_def)
  next
    case (TXT ts)
    then have "txt_loop data (off + length (RData_serialize rd)) off [] = Ok ts"
      using txt_loop_serialize [of ts off data post "[]"] wf off d by simp
    then show ?thesis
      using TXT m by (simp add: run parse_TXT_def)
  next
    case (SOA mn rn s1 s2 s3 s4 s5)
    let ?m = "length (DnsName_to_wire mn)" and ?r = "length (DnsName_to_wire rn)"
    have n1: "DnsName_parse U data off = (Ok mn, off + ?m)"
      using SOA wf d by (intro name_here [OF _ off]) simp_all
    have n2: "DnsName_parse U data (off + ?m) = (Ok rn, off + ?m + ?r)"
      using SOA wf d by (intro name_after [OF off, of "DnsName_to_wire mn"]) simp_all
    have l: "off + ?m + ?r \<le> length data"
      using drop_enc_length [OF off, of "DnsName_to_wire mn @ DnsName_to_wire rn"] SOA d by simp
    show ?thesis
      using SOA m l by (simp add: run parse_SOA_def n1 n2)
  next
    case (SRV p w po n)
    then have "DnsName_parse U data (off + 6) = (Ok n, off + 6 + length (DnsName_to_wire n))"
      using wf d
      by (intro name_after [OF off,
            of "u16_to_be_bytes p @ u16_to_be_bytes w @ u16_to_be_bytes po" _ post]) simp_all
    then show ?thesis
      using SRV m by (simp add: run parse_SRV_def)
  next
    case (DS k a dt dg)
    have s: "rd_to data 4 (off + length (RData_serialize rd)) off = (Ok dg :: (bytes, DnsError) res, off)"
      using DS d by (intro rd_to_here [OF off, of "u16_to_be_bytes k @ [a] @ [dt]" _ post]) simp_all
    then show ?thesis
      using DS m by (simp add: run parse_DS_def Suc_le_eq)
  next
    case (DNSKEY f p a k)
    have s: "rd_to data 4 (off + length (RData_serialize rd)) off = (Ok k :: (bytes, DnsError) res, off)"
      using DNSKEY d by (intro rd_to_here [OF off, of "u16_to_be_bytes f @ [p] @ [a]" _ post]) simp_all
    then show ?thesis
      using DNSKEY m by (simp add: run parse_DNSKEY_def Suc_le_eq)
  next
    case (RRSIG tc a l ot ex ic k n sg)
    let ?fixed = "u16_to_be_bytes (RecordType_to_u16 tc) @ [a] @ [l] @ u32_to_be_bytes ot @
      u32_to_be_bytes ex @ u32_to_be_bytes ic @ u16_to_be_bytes k"
    have n: "DnsName_parse U data (off + 18) = (Ok n, off + 18 + length (DnsName_to_wire n))"
      using RRSIG wf d by (intro name_after [OF off, of ?fixed _ "sg @ post"]) simp_all
    let ?o = "off + 18 + length (DnsName_to_wire n)"
    have l: "?o \<le> length data" and d': "drop ?o data = [] @ sg @ post"
      using drop_enc_length [OF off, of "?fixed @ DnsName_to_wire n"]
        drop_enc_step [of off data "?fixed @ DnsName_to_wire n"] RRSIG d by (simp_all add: add.assoc)
    have s: "rd_to data 0 (off + length (RData_serialize rd)) ?o = (Ok sg :: (bytes, DnsError) res, ?o)"
      using RRSIG by (intro rd_to_here [OF l d']) simp_all
    have "canonical_type tc" using RRSIG wf by simp
    then show ?thesis
      using RRSIG m s by (simp add: run parse_RRSIG_def n canonical_type_def)
  next
    case (NSEC n b)
    have n: "DnsName_parse U data off = (Ok n, off + length (DnsName_to_wire n))"
      using NSEC wf d by (intro name_here [OF _ off]) simp_all
    let ?o = "off + length (DnsName_to_wire n)"
    have l: "?o \<le> length data" and d': "drop ?o data = [] @ b @ post"
      using drop_enc_length [OF off, of "DnsName_to_wire n"]
        drop_enc_step [of off data "DnsName_to_wire n"] NSEC d by simp_all
    have s: "rd_to data 0 (off + length (RData_serialize rd)) ?o = (Ok b :: (bytes, DnsError) res, ?o)"
      using NSEC by (intro rd_to_here [OF l d']) simp_all
    show ?thesis
      using NSEC m s by (simp add: run parse_NSEC_def n)
  next
    case (OPT b)
    then have s: "rd_to data 0 (off + length b) off = (Ok b :: (bytes, DnsError) res, off)"
      using d by (intro rd_to_here [OF off, of "[]" _ post]) simp_all
    then show ?thesis
      using OPT m by (simp add: run parse_raw_def)
  next
    case (Unknown b)
    then have s: "rd_to data 0 (off + length b) off = (Ok b :: (bytes, DnsError) res, off)"
      using d by (intro rd_to_here [OF off, of "[]" _ post]) simp_all
    then show ?thesis
      using Unknown m by (auto simp: run parse_raw_def)
  qed (use wf m in \<open>simp_all add: parse_rdata_of_def parse_name_data_enc [OF off] d\<close>)
qed

lemma RData_parse_serialize:
  assumes "wf_rdata U rd" "rdata_matches t rd" "length (RData_serialize rd) < 65536"
    and "off \<le> length data" "drop off data = RData_serialize rd @ post"
  shows "RData_parse U t data (of_nat (length (RData_serialize rd))) off
    = (Ok rd, off + length (RData_serialize rd))"
  using parse_rdata_of_serialize [OF assms(1,2) unat_u16_of_nat [OF assms(3)] assms(4,5)]
    drop_enc_length [OF assms(4,5)] assms(3)
  by (simp add: RData_parse_def Let_def)

section \<open>Properties\<close>

text \<open>What a reader makes of texts: each comes as its pieces of at most 255 bytes.\<close>

definition text_pieces :: "rstr \<Rightarrow> rstr list" where
  "text_pieces t = (if t = [] then [[]] else chunks 255 t)"

fun as_read :: "RData \<Rightarrow> RData" where
  "as_read (RData.TXT ts) = RData.TXT (concat (map text_pieces ts))"
| "as_read rd = rd"

lemma chunks_pieces: "n \<noteq> 0 \<Longrightarrow> concat (chunks n xs) = xs \<and> (\<forall>c \<in> set (chunks n xs). c \<noteq> [] \<and> length c \<le> n)"
proof (induction n xs rule: chunks.induct)
  case (1 n xs)
  then show ?case by (subst (1 2) chunks.simps) (cases "xs = []", auto)
qed

lemma text_pieces: "concat (text_pieces t) = t" "\<forall>p \<in> set (text_pieces t). length p \<le> 255"
  using chunks_pieces [of 255 t] by (auto simp: text_pieces_def)

lemma text_pieces_short: "length t \<le> 255 \<Longrightarrow> text_pieces t = [t]"
  by (simp add: text_pieces_def chunks_short)

lemma serialize_pieces: "concat (map serialize_text (text_pieces t)) = serialize_text t"
proof -
  have m: "map serialize_text (chunks 255 t) = map (\<lambda>c. of_nat (length c) # c) (chunks 255 t)"
    using chunks_pieces [of 255 t] by (intro map_cong refl) (simp add: serialize_text_short)
  show ?thesis
    by (cases "t = []") (simp_all add: text_pieces_def serialize_text_def [of t] m serialize_text_short
        chunks.simps [of 255 "[]"])
qed

lemma as_read_texts: "as_read (RData.TXT ts) = RData.TXT ps \<Longrightarrow> concat ps = concat ts"
proof -
  have "concat (concat (map text_pieces ts)) = concat ts" by (induction ts) (simp_all add: text_pieces(1))
  then show "as_read (RData.TXT ts) = RData.TXT ps \<Longrightarrow> concat ps = concat ts" by auto
qed

lemma as_read_serialize: "RData_serialize (as_read rd) = RData_serialize rd"
proof (cases rd)
  case (TXT ts)
  have "concat (map serialize_text (concat (map text_pieces ts))) = concat (map serialize_text ts)"
    by (induction ts) (simp_all add: serialize_pieces)
  then show ?thesis by (simp add: TXT)
qed simp_all

lemma as_read_matches: "rdata_matches t (as_read rd) = rdata_matches t rd"
  by (cases rd) simp_all

lemma as_read_id: "wf_rdata U rd \<Longrightarrow> as_read rd = rd"
proof (cases rd)
  case (TXT ts)
  moreover have "list_all (\<lambda>t. length t \<le> 255 \<and> valid_utf8 t) ts \<Longrightarrow> concat (map text_pieces ts) = ts"
    by (induction ts) (simp_all add: text_pieces_short)
  moreover assume "wf_rdata U rd"
  ultimately show ?thesis by simp
qed simp_all

text \<open>
  C26. Round trip of record data: data of any of the fifteen kinds, with well-formed names and with
  texts of any length whose pieces of 255 bytes are well formed, is written so that the parser,
  given its type and its length, reads it back at that place of any packet and stands behind it.
  Texts come back in those pieces, which make up the same bytes; everything else, and every text
  of at most 255 bytes, comes back as it was.
\<close>

theorem RData_roundtrip:
  assumes "wf_rdata U (as_read rd)" "rdata_matches t rd" "length (RData_serialize rd) < 65536"
  shows "RData_parse U t (pre @ RData_serialize rd @ post) (of_nat (length (RData_serialize rd)))
      (length pre) = (Ok (as_read rd), length pre + length (RData_serialize rd)) \<and>
    (\<forall>ts ps. rd = RData.TXT ts \<and> as_read rd = RData.TXT ps \<longrightarrow> concat ps = concat ts) \<and>
    (wf_rdata U rd \<longrightarrow> as_read rd = rd)"
proof -
  have "RData_parse U t (pre @ RData_serialize rd @ post) (of_nat (length (RData_serialize rd)))
      (length pre) = (Ok (as_read rd), length pre + length (RData_serialize rd))"
    using RData_parse_serialize [OF assms(1), where post = post and t = t] assms(2,3)
    by (simp add: as_read_serialize as_read_matches)
  then show ?thesis using as_read_texts as_read_id by blast
qed

theorem RData_roundtrip_witness:
  "fst (RData_parse plain RecordType.TXT ([] @ RData_serialize (RData.TXT [replicate 300 104, []]) @ [1])
      (of_nat (length (RData_serialize (RData.TXT [replicate 300 104, []])))) (length ([] :: bytes)))
   = Ok (RData.TXT [replicate 255 104, replicate 45 104, []])"
proof -
  have c: "chunks 255 (replicate 300 (104 :: u8)) = [replicate 255 104, replicate 45 104]"
    by (subst chunks.simps, subst chunks.simps) (simp add: chunks.simps [of 255 "[]"])
  have r: "as_read (RData.TXT [replicate 300 104, []]) = RData.TXT [replicate 255 104, replicate 45 104, []]"
    by (simp add: text_pieces_def c)
  have v: "valid_utf8 (replicate n 104)" for n by (rule ascii_valid_utf8) (simp add: is_ascii_def list_all_iff)
  have s: "length (RData_serialize (RData.TXT [replicate 300 104, []])) = 303"
    by (simp add: serialize_text_def c chunks.simps [of 255 "[]"])
  have "wf_rdata plain (as_read (RData.TXT [replicate 300 104, []]))"
    using v v [of 0] by (simp only: r) simp
  from RData_roundtrip [OF this, of RecordType.TXT "[]" "[1]"] s show ?thesis
    unfolding r by (simp del: RData_serialize.simps as_read.simps)
qed

text \<open>
  C27. The record-data parser on any packet: the offset stays inside the packet; what it
  returns belongs to the record type and ends exactly where the record's length says, wherever a
  name inside it pointed; and it panics for no type other than RRSIG and NSEC.
\<close>

theorem RData_parse_safe:
  assumes "off \<le> length data" "RData_parse U t data rdlength off = (r, off')"
  shows "off \<le> off' \<and> off' \<le> length data \<and>
    (\<forall>rd. r = Ok rd \<longrightarrow> off' = off + unat rdlength \<and> rdata_matches t rd) \<and>
    (r = Panic \<longrightarrow> t = RecordType.RRSIG \<or> t = RecordType.NSEC)"
  using wpD [OF RData_parse_post [OF assms(1)] assms(2)] by (simp add: rdata_post_def)

theorem RData_parse_safe_witness:
  "fst (RData_parse plain RecordType.A [1, 2, 3] 4 0) \<noteq> Panic"
  using RData_parse_safe [of 0 "[1, 2, 3]" plain RecordType.A 4
      "fst (RData_parse plain RecordType.A [1, 2, 3] 4 0)"
      "snd (RData_parse plain RecordType.A [1, 2, 3] 4 0)"] by simp

text \<open>
  C28. When the record-data parser panics: exactly for a record that ends inside the packet and
  whose name (the next domain of an NSEC record, the signer of an RRSIG record of at least 19
  bytes) can be read but leaves the offset behind the end of the record, so that the slice of
  what is left of the record starts after it ends.
\<close>

theorem RData_parse_panics:
  "fst (RData_parse U t data rdlength off) = Panic \<longleftrightarrow>
    off + unat rdlength \<le> length data \<and>
    (\<exists>start n off'. (t = RecordType.NSEC \<and> start = off \<or>
        t = RecordType.RRSIG \<and> 19 \<le> unat rdlength \<and> start = off + 18) \<and>
      DnsName_parse U data start = (Ok n, off') \<and> off + unat rdlength < off')"
proof (cases "off + unat rdlength \<le> length data")
  case True
  let ?stop = "off + unat rdlength"
  have here: "RData_parse U t data rdlength off = parse_rdata_of U t data rdlength ?stop off"
    using True by (simp add: RData_parse_def)
  consider "t = RecordType.NSEC" | "t = RecordType.RRSIG" | "t \<noteq> RecordType.NSEC" "t \<noteq> RecordType.RRSIG"
    by blast
  then show ?thesis
  proof cases
    case 1
    obtain r off' where "DnsName_parse U data off = (r, off')" by fastforce
    then show ?thesis
      using True DnsName_parse_no_panic [of U data off] unfolding here
      by (cases r) (auto simp: 1 parse_rdata_of_def parse_NSEC_def bindP_def rd_to_def liftP_def
          slice_at_def seekP_def retP_def)
  next
    case 2
    obtain r off' where "DnsName_parse U data (off + 18) = (r, off')" by fastforce
    then show ?thesis
      using True DnsName_parse_no_panic [of U data "off + 18"] unfolding here
      by (cases r) (auto simp: 2 parse_rdata_of_def parse_RRSIG_def bindP_def rejectP_def rd_to_def
          rd8_def rd16_def rd32_def advP_def u8_at_def u16_at_def u32_at_def slice_at_def seekP_def
          retP_def rdlength_simps)
  next
    case 3
    have "off \<le> length data" using True by simp
    from RData_parse_post [OF this, of U t rdlength] 3 show ?thesis
      by (auto simp: rdata_post_def wpP_def split: prod.splits)
  qed
qed (simp add: RData_parse_def)

theorem RData_parse_panics_witness:
  "fst (RData_parse plain RecordType.NSEC [0] 0 0) = Panic \<and>
   fst (RData_parse plain RecordType.NSEC [0] 1 0) \<noteq> Panic"
  unfolding RData_parse_panics by (simp add: DnsName_parse_def loop_end)

end
