(* ===== verification/Dns_Record.thy ===== *)
theory Dns_Record
  imports Rdata
begin

text \<open>
  \<open>src/dns/record.rs\<close>: record classes and resource records. \<open>DnsRecord_parse\<close> reads one
  record at the offset, \<open>DnsRecord_serialize\<close> writes it uncompressed.
\<close>

datatype RecordClass = IN | CH | HS | ANY | Unknown u16

definition RecordClass_from_u16 :: "u16 \<Rightarrow> RecordClass" where
  "RecordClass_from_u16 val =
     (if val = 1 then RecordClass.IN
      else if val = 3 then RecordClass.CH
      else if val = 4 then RecordClass.HS
      else if val = 255 then RecordClass.ANY
      else RecordClass.Unknown val)"

fun RecordClass_to_u16 :: "RecordClass \<Rightarrow> u16" where
  "RecordClass_to_u16 RecordClass.IN = 1"
| "RecordClass_to_u16 RecordClass.CH = 3"
| "RecordClass_to_u16 RecordClass.HS = 4"
| "RecordClass_to_u16 RecordClass.ANY = 255"
| "RecordClass_to_u16 (RecordClass.Unknown n) = n"

record DnsRecord =
  rr_name :: DnsName
  rr_type :: RecordType
  rr_class :: RecordClass
  rr_ttl :: u32
  rr_data :: RData

definition DnsRecord_new :: "DnsName \<Rightarrow> RecordType \<Rightarrow> u32 \<Rightarrow> RData \<Rightarrow> DnsRecord" where
  "DnsRecord_new name record_type ttl rdata =
     \<lparr>rr_name = name, rr_type = record_type, rr_class = RecordClass.IN, rr_ttl = ttl,
      rr_data = rdata\<rparr>"

definition DnsRecord_parse :: "unicode \<Rightarrow> bytes \<Rightarrow> (DnsRecord, DnsError) parser" where
  "DnsRecord_parse U data =
     bindP (DnsName_parse U data) (\<lambda>name.
     bindP (rejectP (\<lambda>offset. offset + 10 > length data) BufferTooShort) (\<lambda>_.
     bindP (rd16 data 0) (\<lambda>t.
     bindP (rd16 data 2) (\<lambda>c.
     bindP (rd32 data 4) (\<lambda>ttl.
     bindP (rd16 data 8) (\<lambda>rdlength.
     bindP (advP 10) (\<lambda>_.
     bindP (RData_parse U (RecordType_from_u16 t) data rdlength) (\<lambda>rdata.
     retP \<lparr>rr_name = name, rr_type = RecordType_from_u16 t,
           rr_class = RecordClass_from_u16 c, rr_ttl = ttl, rr_data = rdata\<rparr>))))))))"

definition DnsRecord_serialize :: "DnsRecord \<Rightarrow> bytes" where
  "DnsRecord_serialize r =
     (let rdata = RData_serialize (rr_data r) in
      DnsName_to_wire (rr_name r) @
      u16_to_be_bytes (RecordType_to_u16 (rr_type r)) @
      u16_to_be_bytes (RecordClass_to_u16 (rr_class r)) @
      u32_to_be_bytes (rr_ttl r) @
      u16_to_be_bytes (of_nat (length rdata)) @
      rdata)"

section \<open>Well-formed records\<close>

definition canonical_class :: "RecordClass \<Rightarrow> bool" where
  "canonical_class c = (RecordClass_from_u16 (RecordClass_to_u16 c) = c)"

definition wf_record :: "unicode \<Rightarrow> DnsRecord \<Rightarrow> bool" where
  "wf_record U r =
     (wf_name U (rr_name r) \<and> canonical_type (rr_type r) \<and> canonical_class (rr_class r) \<and>
      wf_rdata U (rr_data r) \<and> rdata_matches (rr_type r) (rr_data r) \<and>
      length (RData_serialize (rr_data r)) < 65536)"

section \<open>Lemmas\<close>

lemma RecordClass_to_from [simp]: "RecordClass_to_u16 (RecordClass_from_u16 w) = w"
  by (simp add: RecordClass_from_u16_def)

lemma wp_RData_parse:
  assumes "off \<le> length data"
    and "\<And>rd. off + unat n \<le> length data \<Longrightarrow> rdata_matches t rd \<Longrightarrow> Q (Ok rd) (off + unat n)"
    and "\<And>e off'. off \<le> off' \<Longrightarrow> off' \<le> length data \<Longrightarrow> Q (Err e) off'"
    and "\<And>off'. off \<le> off' \<Longrightarrow> off' \<le> length data \<Longrightarrow> t = RecordType.RRSIG \<or> t = RecordType.NSEC \<Longrightarrow>
      Q Panic off'"
  shows "wpP (RData_parse U t data n) off Q"
proof (rule wp_mono [OF RData_parse_post [OF assms(1)]])
  fix r off'
  assume "rdata_post t data off (off + unat n) r off'"
  then show "Q r off'"
    using assms(2-4) by (cases r) (auto simp: rdata_post_def)
qed

text \<open>
  One record: the offset stays inside the packet; a record that is read took at least eleven
  bytes and its data belongs to its type; a panic needs a record of type RRSIG or NSEC.
\<close>

definition record_post ::
  "bytes \<Rightarrow> nat \<Rightarrow> (DnsRecord, DnsError) res \<Rightarrow> nat \<Rightarrow> bool" where
  "record_post data off r off' =
     (off \<le> off' \<and> off' \<le> length data \<and>
      (\<forall>rr. r = Ok rr \<longrightarrow> off + 11 \<le> off' \<and> rdata_matches (rr_type rr) (rr_data rr) \<and>
         canonical_type (rr_type rr)))"

lemma DnsRecord_parse_post:
  "off \<le> length data \<Longrightarrow> wpP (DnsRecord_parse U data) off (record_post data off)"
  unfolding DnsRecord_parse_def wp_simps
  by (rule wp_name) (auto simp: record_post_def wp_simps intro!: wp_RData_parse)

interpretation rr: sized_decoder "DnsRecord_parse U" 11 for U
proof unfold_locales
  fix off and data :: bytes
  assume o: "off \<le> length data"
  show "wpP (DnsRecord_parse U data) off (\<lambda>r off'. off \<le> off' \<and> off' \<le> length data)"
    by (rule wp_mono [OF DnsRecord_parse_post [OF o]]) (simp add: record_post_def)
  fix a off'
  assume "DnsRecord_parse U data off = (Ok a, off')"
  then show "off + 11 \<le> off'"
    using wpD [OF DnsRecord_parse_post [OF o]] by (fastforce simp: record_post_def)
qed

lemma DnsRecord_parse_serialize:
  assumes wf: "wf_record U r" and off: "off \<le> length data"
    and d: "drop off data = DnsRecord_serialize r @ post"
  shows "DnsRecord_parse U data off = (Ok r, off + length (DnsRecord_serialize r))"
proof -
  let ?n = "DnsName_to_wire (rr_name r)" and ?d = "RData_serialize (rr_data r)"
  let ?fix = "u16_to_be_bytes (RecordType_to_u16 (rr_type r)) @
      u16_to_be_bytes (RecordClass_to_u16 (rr_class r)) @ u32_to_be_bytes (rr_ttl r) @
      u16_to_be_bytes (of_nat (length ?d))"
  let ?o = "off + length ?n"
  have d0: "drop off data = ?n @ ?fix @ ?d @ post"
    using d by (simp add: DnsRecord_serialize_def Let_def)
  have n: "DnsName_parse U data off = (Ok (rr_name r), ?o)"
    using wf by (intro name_here [OF _ off d0]) (simp add: wf_record_def)
  have o: "?o \<le> length data" and d1: "drop ?o data = ?fix @ ?d @ post"
    using drop_enc_length [OF off d0] drop_enc_step [OF d0] by simp_all
  have o2: "?o + 10 \<le> length data" and d2: "drop (?o + 10) data = ?d @ post"
    using drop_enc_length [OF o d1] drop_enc_step [OF d1] by simp_all
  have rd: "RData_parse U (rr_type r) data (of_nat (length ?d)) (?o + 10)
      = (Ok (rr_data r), ?o + 10 + length ?d)"
    using wf by (intro RData_parse_serialize [OF _ _ _ o2 d2]) (simp_all add: wf_record_def)
  have l: "length (DnsRecord_serialize r) = length ?n + 10 + length ?d"
    by (simp add: DnsRecord_serialize_def Let_def)
  show ?thesis
    using wf o2 rd unfolding l
    by (simp add: DnsRecord_parse_def parse_simps n o d1 wf_record_def canonical_type_def
        canonical_class_def)
qed

interpretation rr: codec "DnsRecord_parse U" "wf_record U" DnsRecord_serialize for U
  by unfold_locales (rule DnsRecord_parse_serialize)

end
