(* ===== verification/Question.thy ===== *)
theory Question
  imports Dns_Record
begin

text \<open>\<open>src/dns/question.rs\<close>: the questions of a message.\<close>

record DnsQuestion =
  q_name :: DnsName
  q_type :: RecordType
  q_class :: RecordClass

definition DnsQuestion_new :: "DnsName \<Rightarrow> RecordType \<Rightarrow> DnsQuestion" where
  "DnsQuestion_new name record_type =
     \<lparr>q_name = name, q_type = record_type, q_class = RecordClass.IN\<rparr>"

definition DnsQuestion_parse :: "unicode \<Rightarrow> bytes \<Rightarrow> (DnsQuestion, DnsError) parser" where
  "DnsQuestion_parse U data =
     bindP (DnsName_parse U data) (\<lambda>name.
     bindP (rejectP (\<lambda>offset. offset + 4 > length data) BufferTooShort) (\<lambda>_.
     bindP (rd16 data 0) (\<lambda>t.
     bindP (rd16 data 2) (\<lambda>c.
     bindP (advP 4) (\<lambda>_.
     retP \<lparr>q_name = name, q_type = RecordType_from_u16 t,
           q_class = RecordClass_from_u16 c\<rparr>)))))"

definition DnsQuestion_serialize :: "DnsQuestion \<Rightarrow> bytes" where
  "DnsQuestion_serialize q =
     DnsName_to_wire (q_name q) @
     u16_to_be_bytes (RecordType_to_u16 (q_type q)) @
     u16_to_be_bytes (RecordClass_to_u16 (q_class q))"

definition wf_question :: "unicode \<Rightarrow> DnsQuestion \<Rightarrow> bool" where
  "wf_question U q =
     (wf_name U (q_name q) \<and> canonical_type (q_type q) \<and> canonical_class (q_class q))"

lemma DnsQuestion_parse_post:
  "off \<le> length data \<Longrightarrow> wpP (DnsQuestion_parse U data) off
     (\<lambda>r off'. off \<le> off' \<and> off' \<le> length data \<and> r \<noteq> Panic \<and> (is_ok r \<longrightarrow> off + 5 \<le> off'))"
  unfolding DnsQuestion_parse_def wp_simps
  by (rule wp_name) (auto simp: wp_simps)

interpretation qu: sized_decoder "DnsQuestion_parse U" 5 for U
proof unfold_locales
  fix off and data :: bytes
  assume o: "off \<le> length data"
  show "wpP (DnsQuestion_parse U data) off (\<lambda>r off'. off \<le> off' \<and> off' \<le> length data)"
    by (rule wp_mono [OF DnsQuestion_parse_post [OF o]]) simp
  fix a off'
  assume "DnsQuestion_parse U data off = (Ok a, off')"
  then show "off + 5 \<le> off'"
    using wpD [OF DnsQuestion_parse_post [OF o]] by fastforce
qed

interpretation qu: codec "DnsQuestion_parse U" "wf_question U" DnsQuestion_serialize for U
proof unfold_locales
  fix q off post and data :: bytes
  assume wf: "wf_question U q" and off: "off \<le> length data"
    and d: "drop off data = DnsQuestion_serialize q @ post"
  let ?n = "DnsName_to_wire (q_name q)"
  let ?fix = "u16_to_be_bytes (RecordType_to_u16 (q_type q)) @
      u16_to_be_bytes (RecordClass_to_u16 (q_class q))"
  have d0: "drop off data = ?n @ ?fix @ post"
    using d by (simp add: DnsQuestion_serialize_def)
  have n: "DnsName_parse U data off = (Ok (q_name q), off + length ?n)"
    using wf by (intro name_here [OF _ off d0]) (simp add: wf_question_def)
  have o: "off + length ?n \<le> length data" and d1: "drop (off + length ?n) data = ?fix @ post"
    using drop_enc_length [OF off d0] drop_enc_step [OF d0] by simp_all
  have o2: "off + length ?n + 4 \<le> length data"
    using drop_enc_length [OF o d1] by simp
  have l: "length (DnsQuestion_serialize q) = length ?n + 4"
    by (simp add: DnsQuestion_serialize_def)
  show "DnsQuestion_parse U data off = (Ok q, off + length (DnsQuestion_serialize q))"
    using wf o2 unfolding l
    by (simp add: DnsQuestion_parse_def parse_simps n o d1 wf_question_def canonical_type_def
        canonical_class_def)
qed

end
