(* ===== verification/Header.thy ===== *)
theory Header
  imports Codec Error
begin

text \<open>
  \<open>src/dns/header.rs\<close>: the twelve bytes of the message header. The flags are packed and
  unpacked with the masks of the source.
\<close>

section \<open>Codes\<close>

datatype OpCode = Query | IQuery | Status | Unknown u8

definition OpCode_from_u8 :: "u8 \<Rightarrow> OpCode" where
  "OpCode_from_u8 val =
     (if val = 0 then OpCode.Query else if val = 1 then OpCode.IQuery
      else if val = 2 then OpCode.Status else OpCode.Unknown val)"

fun OpCode_to_u8 :: "OpCode \<Rightarrow> u8" where
  "OpCode_to_u8 OpCode.Query = 0"
| "OpCode_to_u8 OpCode.IQuery = 1"
| "OpCode_to_u8 OpCode.Status = 2"
| "OpCode_to_u8 (OpCode.Unknown n) = n"

datatype ResponseCode =
    NoError | FormatError | ServerFailure | NameError | NotImplemented | Refused | Unknown u8

definition ResponseCode_from_u8 :: "u8 \<Rightarrow> ResponseCode" where
  "ResponseCode_from_u8 val =
     (if val = 0 then ResponseCode.NoError else if val = 1 then ResponseCode.FormatError
      else if val = 2 then ResponseCode.ServerFailure else if val = 3 then ResponseCode.NameError
      else if val = 4 then ResponseCode.NotImplemented else if val = 5 then ResponseCode.Refused
      else ResponseCode.Unknown val)"

fun ResponseCode_to_u8 :: "ResponseCode \<Rightarrow> u8" where
  "ResponseCode_to_u8 ResponseCode.NoError = 0"
| "ResponseCode_to_u8 ResponseCode.FormatError = 1"
| "ResponseCode_to_u8 ResponseCode.ServerFailure = 2"
| "ResponseCode_to_u8 ResponseCode.NameError = 3"
| "ResponseCode_to_u8 ResponseCode.NotImplemented = 4"
| "ResponseCode_to_u8 ResponseCode.Refused = 5"
| "ResponseCode_to_u8 (ResponseCode.Unknown n) = n"

section \<open>The header\<close>

record DnsHeader =
  h_id :: u16
  is_response :: bool
  opcode :: OpCode
  authoritative :: bool
  truncated :: bool
  recursion_desired :: bool
  recursion_available :: bool
  authentic_data :: bool
  checking_disabled :: bool
  response_code :: ResponseCode
  question_count :: u16
  answer_count :: u16
  authority_count :: u16
  additional_count :: u16

definition DnsHeader_new_query :: "u16 \<Rightarrow> DnsHeader" where
  "DnsHeader_new_query i =
     \<lparr>h_id = i, is_response = False, opcode = OpCode.Query, authoritative = False,
      truncated = False, recursion_desired = True, recursion_available = False,
      authentic_data = False, checking_disabled = False, response_code = ResponseCode.NoError,
      question_count = 0, answer_count = 0, authority_count = 0, additional_count = 0\<rparr>"

definition DnsHeader_parse :: "bytes \<Rightarrow> (DnsHeader, DnsError) parser" where
  "DnsHeader_parse data =
     bindP (rejectP (\<lambda>offset. offset + 12 > length data) BufferTooShort) (\<lambda>_.
     bindP (rd16 data 0) (\<lambda>i.
     bindP (rd8 data 2) (\<lambda>flags1.
     bindP (rd8 data 3) (\<lambda>flags2.
     bindP (rd16 data 4) (\<lambda>qc.
     bindP (rd16 data 6) (\<lambda>anc.
     bindP (rd16 data 8) (\<lambda>auc.
     bindP (rd16 data 10) (\<lambda>adc.
     bindP (advP 12) (\<lambda>_.
     retP
       \<lparr>h_id = i,
        is_response = (flags1 AND 0x80 \<noteq> 0),
        opcode = OpCode_from_u8 (drop_bit 3 flags1 AND 0x0F),
        authoritative = (flags1 AND 0x04 \<noteq> 0),
        truncated = (flags1 AND 0x02 \<noteq> 0),
        recursion_desired = (flags1 AND 0x01 \<noteq> 0),
        recursion_available = (flags2 AND 0x80 \<noteq> 0),
        authentic_data = (flags2 AND 0x20 \<noteq> 0),
        checking_disabled = (flags2 AND 0x10 \<noteq> 0),
        response_code = ResponseCode_from_u8 (flags2 AND 0x0F),
        question_count = qc,
        answer_count = anc,
        authority_count = auc,
        additional_count = adc\<rparr>)))))))))"

definition header_flags1 :: "DnsHeader \<Rightarrow> u8" where
  "header_flags1 h =
     (let flags1 = 0;
          flags1 = (if is_response h then flags1 OR 0x80 else flags1);
          flags1 = flags1 OR push_bit 3 (OpCode_to_u8 (opcode h) AND 0x0F);
          flags1 = (if authoritative h then flags1 OR 0x04 else flags1);
          flags1 = (if truncated h then flags1 OR 0x02 else flags1);
          flags1 = (if recursion_desired h then flags1 OR 0x01 else flags1)
      in flags1)"

definition header_flags2 :: "DnsHeader \<Rightarrow> u8" where
  "header_flags2 h =
     (let flags2 = 0;
          flags2 = (if recursion_available h then flags2 OR 0x80 else flags2);
          flags2 = (if authentic_data h then flags2 OR 0x20 else flags2);
          flags2 = (if checking_disabled h then flags2 OR 0x10 else flags2);
          flags2 = flags2 OR (ResponseCode_to_u8 (response_code h) AND 0x0F)
      in flags2)"

definition DnsHeader_serialize :: "DnsHeader \<Rightarrow> bytes" where
  "DnsHeader_serialize h =
     u16_to_be_bytes (h_id h) @ [header_flags1 h] @ [header_flags2 h] @
     u16_to_be_bytes (question_count h) @ u16_to_be_bytes (answer_count h) @
     u16_to_be_bytes (authority_count h) @ u16_to_be_bytes (additional_count h)"

text \<open>The codes that fit the four bits they are packed into.\<close>

definition wf_header :: "DnsHeader \<Rightarrow> bool" where
  "wf_header h =
     (OpCode_from_u8 (OpCode_to_u8 (opcode h) AND 0x0F) = opcode h \<and>
      ResponseCode_from_u8 (ResponseCode_to_u8 (response_code h) AND 0x0F) = response_code h)"

section \<open>Lemmas\<close>

lemma OpCode_to_from [simp]: "OpCode_to_u8 (OpCode_from_u8 w) = w"
  by (simp add: OpCode_from_u8_def)

lemma ResponseCode_to_from [simp]: "ResponseCode_to_u8 (ResponseCode_from_u8 w) = w"
  by (simp add: ResponseCode_from_u8_def)

lemma all_bits_u8: "n < LENGTH(8) \<Longrightarrow> n = 0 \<or> n = 1 \<or> n = 2 \<or> n = 3 \<or> n = 4 \<or> n = 5 \<or> n = 6 \<or> n = 7"
  by auto

lemma and_bit_u8:
  "(w :: u8) AND 0x80 \<noteq> 0 \<longleftrightarrow> bit w 7" "w AND 0x20 \<noteq> 0 \<longleftrightarrow> bit w 5" "w AND 0x10 \<noteq> 0 \<longleftrightarrow> bit w 4"
  "w AND 0x04 \<noteq> 0 \<longleftrightarrow> bit w 2" "w AND 0x02 \<noteq> 0 \<longleftrightarrow> bit w 1" "w AND 0x01 \<noteq> 0 \<longleftrightarrow> bit w 0"
  using and_exp_eq_0_iff_not_bit [of w 7] and_exp_eq_0_iff_not_bit [of w 5]
    and_exp_eq_0_iff_not_bit [of w 4] and_exp_eq_0_iff_not_bit [of w 2]
    and_exp_eq_0_iff_not_bit [of w 1] and_exp_eq_0_iff_not_bit [of w 0]
  by simp_all

lemma bit_flags1:
  "bit (header_flags1 h) 7 = is_response h"
  "bit (header_flags1 h) 2 = authoritative h"
  "bit (header_flags1 h) (Suc 0) = truncated h"
  "bit (header_flags1 h) 0 = recursion_desired h"
  by (simp_all add: header_flags1_def Let_def bit_simps)

lemma bit_flags2:
  "bit (header_flags2 h) 7 = recursion_available h"
  "bit (header_flags2 h) 5 = authentic_data h"
  "bit (header_flags2 h) 4 = checking_disabled h"
  by (simp_all add: header_flags2_def Let_def bit_simps)

lemma opcode_flags1: "drop_bit 3 (header_flags1 h) AND 0x0F = OpCode_to_u8 (opcode h) AND 0x0F"
proof (rule bit_word_eqI)
  fix n assume "n < LENGTH(8)"
  from all_bits_u8 [OF this]
  show "bit (drop_bit 3 (header_flags1 h) AND 0x0F) n = bit (OpCode_to_u8 (opcode h) AND 0x0F) n"
    by (elim disjE) (simp_all add: header_flags1_def Let_def bit_simps)
qed

lemma rcode_flags2: "header_flags2 h AND 0x0F = ResponseCode_to_u8 (response_code h) AND 0x0F"
proof (rule bit_word_eqI)
  fix n assume "n < LENGTH(8)"
  from all_bits_u8 [OF this]
  show "bit (header_flags2 h AND 0x0F) n = bit (ResponseCode_to_u8 (response_code h) AND 0x0F) n"
    by (elim disjE) (simp_all add: header_flags2_def Let_def bit_simps)
qed

lemma DnsHeader_serialize_length [simp]: "length (DnsHeader_serialize h) = 12"
  by (simp add: DnsHeader_serialize_def)

lemma DnsHeader_parse_post:
  "off \<le> length data \<Longrightarrow> wpP (DnsHeader_parse data) off
     (\<lambda>r off'. off \<le> off' \<and> off' \<le> length data \<and> r \<noteq> Panic \<and> (is_ok r \<longrightarrow> off' = off + 12))"
  unfolding DnsHeader_parse_def by (simp add: wp_simps)

interpretation hd: sized_decoder DnsHeader_parse 12
proof unfold_locales
  fix off and data :: bytes
  assume o: "off \<le> length data"
  show "wpP (DnsHeader_parse data) off (\<lambda>r off'. off \<le> off' \<and> off' \<le> length data)"
    by (rule wp_mono [OF DnsHeader_parse_post [OF o]]) simp
  fix a off'
  assume "DnsHeader_parse data off = (Ok a, off')"
  then show "off + 12 \<le> off'"
    using wpD [OF DnsHeader_parse_post [OF o]] by fastforce
qed

interpretation hd: codec DnsHeader_parse wf_header DnsHeader_serialize
proof unfold_locales
  fix h off post and data :: bytes
  assume wf: "wf_header h" and off: "off \<le> length data"
    and d: "drop off data = DnsHeader_serialize h @ post"
  have l: "off + 12 \<le> length data"
    using drop_enc_length [OF off d] by simp
  show "DnsHeader_parse data off = (Ok h, off + length (DnsHeader_serialize h))"
    using wf off l
    by (simp add: DnsHeader_parse_def parse_simps d DnsHeader_serialize_def and_bit_u8 bit_flags1
        bit_flags2 opcode_flags1 rcode_flags2 wf_header_def)
qed

text \<open>A header that was read writes the same twelve bytes, but for the one reserved bit.\<close>

lemma flags1_of_parsed:
  assumes "is_response h = (f AND 0x80 \<noteq> 0)" "opcode h = OpCode_from_u8 (drop_bit 3 f AND 0x0F)"
    "authoritative h = (f AND 0x04 \<noteq> 0)" "truncated h = (f AND 0x02 \<noteq> 0)"
    "recursion_desired h = (f AND 0x01 \<noteq> 0)"
  shows "header_flags1 h = f"
proof (rule bit_word_eqI)
  fix n assume "n < LENGTH(8)"
  from all_bits_u8 [OF this] show "bit (header_flags1 h) n = bit f n"
    by (elim disjE)
      (simp_all add: header_flags1_def Let_def assms and_bit_u8 bit_simps)
qed

lemma flags2_of_parsed:
  assumes "recursion_available h = (f AND 0x80 \<noteq> 0)" "authentic_data h = (f AND 0x20 \<noteq> 0)"
    "checking_disabled h = (f AND 0x10 \<noteq> 0)"
    "response_code h = ResponseCode_from_u8 (f AND 0x0F)"
  shows "header_flags2 h = f AND 0xBF"
proof (rule bit_word_eqI)
  fix n assume "n < LENGTH(8)"
  from all_bits_u8 [OF this] show "bit (header_flags2 h) n = bit (f AND 0xBF) n"
    by (elim disjE)
      (simp_all add: header_flags2_def Let_def assms and_bit_u8 bit_simps)
qed

text \<open>The value of a successful parse.\<close>

definition fst_ok :: "('a, 'e) res \<times> nat \<Rightarrow> 'a" where
  "fst_ok p = (case fst p of Ok a \<Rightarrow> a)"

section \<open>Properties\<close>

text \<open>
  C29. Header round trip from the bytes: of any twelve bytes, reading and writing gives back every
  bit but one, the reserved bit 6 of the fourth byte, which is written as zero; and the parser
  never rejects or panics on twelve bytes.
\<close>

theorem DnsHeader_bytes_roundtrip:
  assumes "length bs = 12"
  shows "\<exists>h. DnsHeader_parse (bs @ post) 0 = (Ok h, 12) \<and>
    DnsHeader_serialize h = bs[3 := bs ! 3 AND 0xBF]"
proof -
  obtain b0 b1 b2 b3 b4 b5 b6 b7 b8 b9 b10 b11 where
    bs: "bs = [b0, b1, b2, b3, b4, b5, b6, b7, b8, b9, b10, b11]"
    using assms by (auto simp: eval_nat_numeral length_Suc_conv)
  obtain h where h: "DnsHeader_parse (bs @ post) 0 = (Ok h, 12)"
    "h_id h = u16_from_be_bytes b0 b1" "is_response h = (b2 AND 0x80 \<noteq> 0)"
    "opcode h = OpCode_from_u8 (drop_bit 3 b2 AND 0x0F)" "authoritative h = (b2 AND 0x04 \<noteq> 0)"
    "truncated h = (b2 AND 0x02 \<noteq> 0)" "recursion_desired h = (b2 AND 0x01 \<noteq> 0)"
    "recursion_available h = (b3 AND 0x80 \<noteq> 0)" "authentic_data h = (b3 AND 0x20 \<noteq> 0)"
    "checking_disabled h = (b3 AND 0x10 \<noteq> 0)"
    "response_code h = ResponseCode_from_u8 (b3 AND 0x0F)"
    "question_count h = u16_from_be_bytes b4 b5" "answer_count h = u16_from_be_bytes b6 b7"
    "authority_count h = u16_from_be_bytes b8 b9" "additional_count h = u16_from_be_bytes b10 b11"
    by (rule that [of "fst_ok (DnsHeader_parse (bs @ post) 0)"])
      (simp_all add: DnsHeader_parse_def parse_simps bs u16_at_def u8_at_def fst_ok_def)
  have "DnsHeader_serialize h = bs[3 := bs ! 3 AND 0xBF]"
    by (simp add: DnsHeader_serialize_def bs h flags1_of_parsed [OF h(3-7)]
        flags2_of_parsed [OF h(8-11)])
  with h(1) show ?thesis by blast
qed

theorem DnsHeader_bytes_roundtrip_witness:
  "\<exists>h. DnsHeader_parse (replicate 12 0xFF @ []) 0 = (Ok h, 12) \<and>
    DnsHeader_serialize h = (replicate 12 0xFF)[3 := replicate 12 0xFF ! 3 AND 0xBF]"
  by (rule DnsHeader_bytes_roundtrip) simp

end
