(* ===== verification/Message.thy ===== *)
theory Message
  imports Question Header
begin

text \<open>
  \<open>src/dns/message.rs\<close>: whole messages. \<open>DnsMessage_parse\<close> reads the header and the four
  sections: an error in the question section fails the message, an error in a record ends that
  section and the next one goes on from the offset left behind.
\<close>

record DnsMessage =
  header :: DnsHeader
  questions :: "DnsQuestion list"
  answers :: "DnsRecord list"
  authorities :: "DnsRecord list"
  additional :: "DnsRecord list"

definition DnsMessage_new_query :: "u16 \<Rightarrow> DnsMessage" where
  "DnsMessage_new_query i =
     \<lparr>header = DnsHeader_new_query i, questions = [], answers = [], authorities = [],
      additional = []\<rparr>"

definition DnsMessage_parse_at :: "unicode \<Rightarrow> bytes \<Rightarrow> (DnsMessage, DnsError) parser" where
  "DnsMessage_parse_at U data =
     bindP (DnsHeader_parse data) (\<lambda>h.
     bindP (parse_all (DnsQuestion_parse U data) (unat (question_count h))) (\<lambda>qs.
     bindP (parse_until_err (DnsRecord_parse U data) (unat (answer_count h))) (\<lambda>ans.
     bindP (parse_until_err (DnsRecord_parse U data) (unat (authority_count h))) (\<lambda>aus.
     bindP (parse_until_err (DnsRecord_parse U data) (unat (additional_count h))) (\<lambda>ads.
     retP \<lparr>header = h, questions = qs, answers = ans, authorities = aus, additional = ads\<rparr>)))))"

definition DnsMessage_parse :: "unicode \<Rightarrow> bytes \<Rightarrow> (DnsMessage, DnsError) res" where
  "DnsMessage_parse U data = fst (DnsMessage_parse_at U data 0)"

text \<open>The counts of the header are those of the sections when a message is written.\<close>

definition header_with_counts :: "DnsMessage \<Rightarrow> DnsHeader" where
  "header_with_counts m =
     (header m)\<lparr>question_count := of_nat (length (questions m)),
       answer_count := of_nat (length (answers m)),
       authority_count := of_nat (length (authorities m)),
       additional_count := of_nat (length (additional m))\<rparr>"

definition DnsMessage_serialize :: "DnsMessage \<Rightarrow> bytes" where
  "DnsMessage_serialize m =
     DnsHeader_serialize (header_with_counts m) @
     concat (map DnsQuestion_serialize (questions m)) @
     concat (map DnsRecord_serialize (answers m)) @
     concat (map DnsRecord_serialize (authorities m)) @
     concat (map DnsRecord_serialize (additional m))"

definition make_response :: "DnsMessage \<Rightarrow> DnsMessage" where
  "make_response m =
     \<lparr>header = (header m)\<lparr>is_response := True, recursion_available := True\<rparr>,
      questions = questions m, answers = [], authorities = [], additional = []\<rparr>"

definition make_error_response :: "DnsMessage \<Rightarrow> ResponseCode \<Rightarrow> DnsMessage" where
  "make_error_response m code =
     (let response = make_response m
      in response\<lparr>header := (header response)\<lparr>response_code := code\<rparr>\<rparr>)"

definition wf_message :: "unicode \<Rightarrow> DnsMessage \<Rightarrow> bool" where
  "wf_message U m =
     (wf_header (header m) \<and>
      list_all (wf_question U) (questions m) \<and> list_all (wf_record U) (answers m) \<and>
      list_all (wf_record U) (authorities m) \<and> list_all (wf_record U) (additional m) \<and>
      length (questions m) < 65536 \<and> length (answers m) < 65536 \<and>
      length (authorities m) < 65536 \<and> length (additional m) < 65536)"

section \<open>Lemmas\<close>

lemma wf_header_counts [simp]: "wf_header (header_with_counts m) = wf_header (header m)"
  by (simp add: wf_header_def header_with_counts_def)

lemma section_read:
  assumes "list_all (wf_record U) xs" "off \<le> length data"
    "drop off data = concat (map DnsRecord_serialize xs) @ post"
  shows "parse_until_err (DnsRecord_parse U data) (length xs) off
      = (Ok xs, off + length (concat (map DnsRecord_serialize xs)))"
    and "off + length (concat (map DnsRecord_serialize xs)) \<le> length data"
    and "drop (off + length (concat (map DnsRecord_serialize xs))) data = post"
  using rr.until_err_enc [OF assms] drop_enc_length [OF assms(2,3)] drop_enc_step [OF assms(3)]
  by simp_all

lemma DnsMessage_read_back:
  assumes wf: "wf_message U m"
  shows "DnsMessage_parse_at U (DnsMessage_serialize m @ post) 0
    = (Ok (m\<lparr>header := header_with_counts m\<rparr>), length (DnsMessage_serialize m))"
proof -
  let ?data = "DnsMessage_serialize m @ post"
  let ?q = "concat (map DnsQuestion_serialize (questions m))"
  let ?a = "concat (map DnsRecord_serialize (answers m))"
  let ?b = "concat (map DnsRecord_serialize (authorities m))"
  let ?c = "concat (map DnsRecord_serialize (additional m))"
  note wfs = wf [unfolded wf_message_def]
  have d0: "drop 0 ?data = DnsHeader_serialize (header_with_counts m) @ ?q @ ?a @ ?b @ ?c @ post"
    by (simp add: DnsMessage_serialize_def)
  have h: "DnsHeader_parse ?data 0 = (Ok (header_with_counts m), 12)"
    using hd.dec_enc [OF _ _ d0] wfs by simp
  have o1: "12 \<le> length ?data" and d1: "drop 12 ?data = ?q @ ?a @ ?b @ ?c @ post"
    using drop_enc_length [OF _ d0] drop_enc_step [OF d0] by simp_all
  have q: "parse_all (DnsQuestion_parse U ?data) (length (questions m)) 12
      = (Ok (questions m), 12 + length ?q)"
    using qu.all_enc [OF _ o1 d1] wfs by simp
  have o2: "12 + length ?q \<le> length ?data" and d2: "drop (12 + length ?q) ?data = ?a @ ?b @ ?c @ post"
    using drop_enc_length [OF o1 d1] drop_enc_step [OF d1] by simp_all
  note a = section_read [where U = U, OF _ o2 d2]
  note b = section_read [where U = U, OF _ a(2,3)]
  note c = section_read [where U = U, OF _ b(2,3)]
  have counts: "unat (question_count (header_with_counts m)) = length (questions m)"
      "unat (answer_count (header_with_counts m)) = length (answers m)"
      "unat (authority_count (header_with_counts m)) = length (authorities m)"
      "unat (additional_count (header_with_counts m)) = length (additional m)"
    using wfs by (simp_all add: header_with_counts_def)
  have len: "length (DnsMessage_serialize m) = 12 + length ?q + length ?a + length ?b + length ?c"
    by (simp add: DnsMessage_serialize_def)
  show ?thesis
    using wfs unfolding len
    by (simp add: DnsMessage_parse_at_def parse_simps h q counts a(1) b(1) c(1))
qed

lemma bindP_Ok:
  "bindP p f off = (Ok b, off') \<longleftrightarrow> (\<exists>a off1. p off = (Ok a, off1) \<and> f a off1 = (Ok b, off'))"
  by (auto simp: bindP_def split: prod.splits res.splits)

text \<open>The head of a message is read back whatever follows the questions.\<close>

lemma DnsMessage_head:
  assumes wf: "wf_header (header m)" "list_all (wf_question U) (questions m)"
      "length (questions m) < 65536"
    and p: "DnsMessage_parse U (DnsMessage_serialize m) = Ok m'"
  shows "header m' = header_with_counts m \<and> questions m' = questions m"
proof -
  let ?data = "DnsMessage_serialize m"
  let ?q = "concat (map DnsQuestion_serialize (questions m))"
  let ?rest = "concat (map DnsRecord_serialize (answers m)) @
      concat (map DnsRecord_serialize (authorities m)) @ concat (map DnsRecord_serialize (additional m))"
  have d0: "drop 0 ?data = DnsHeader_serialize (header_with_counts m) @ ?q @ ?rest"
    by (simp add: DnsMessage_serialize_def)
  have h: "DnsHeader_parse ?data 0 = (Ok (header_with_counts m), 12)"
    using hd.dec_enc [OF _ _ d0] wf by simp
  have o1: "12 \<le> length ?data" and d1: "drop 12 ?data = ?q @ ?rest"
    using drop_enc_length [OF _ d0] drop_enc_step [OF d0] by simp_all
  have q: "parse_all (DnsQuestion_parse U ?data) (length (questions m)) 12
      = (Ok (questions m), 12 + length ?q)"
    using qu.all_enc [OF _ o1 d1] wf by simp
  have c: "unat (question_count (header_with_counts m)) = length (questions m)"
    using wf(3) by (simp add: header_with_counts_def)
  obtain off where "DnsMessage_parse_at U ?data 0 = (Ok m', off)"
    using p by (cases "DnsMessage_parse_at U ?data 0") (simp add: DnsMessage_parse_def)
  then show ?thesis
    by (auto simp: DnsMessage_parse_at_def bindP_Ok h c q retP_def)
qed

section \<open>Properties\<close>

text \<open>
  C1. Message round trip: a message whose codes, names, texts and records are well formed is
  written so that the parser reads back the same message, with the counts of its four sections
  in the header.
\<close>

theorem DnsMessage_roundtrip:
  assumes "wf_message U m"
  shows "DnsMessage_parse U (DnsMessage_serialize m) = Ok (m\<lparr>header := header_with_counts m\<rparr>)"
  using DnsMessage_read_back [OF assms, of "[]"] by (simp add: DnsMessage_parse_def)

theorem DnsMessage_roundtrip_witness:
  "let m = DnsMessage_new_query 7\<lparr>questions := [DnsQuestion_new (DnsName [[97]]) RecordType.MX],
      answers := [DnsRecord_new (DnsName [[97]]) RecordType.MX 60 (RData.MX 10 (DnsName [[98]]))]\<rparr>
   in DnsMessage_parse plain (DnsMessage_serialize m) = Ok (m\<lparr>header := header_with_counts m\<rparr>)"
  unfolding Let_def
  by (rule DnsMessage_roundtrip)
    (simp add: wf_message_def DnsMessage_new_query_def wf_header_def DnsHeader_new_query_def
      OpCode_from_u8_def ResponseCode_from_u8_def wf_question_def DnsQuestion_new_def wf_record_def
      DnsRecord_new_def canonical_type_def canonical_class_def RecordType_from_u16_def
      RecordClass_from_u16_def wf_name_def wf_label_def ascii_valid_utf8 is_ascii_def
      to_lowercase_def ascii_lower_def DnsName_to_wire_def)

text \<open>
  C30. A message that is read is no larger than its packet: every question took at least five
  bytes and every record eleven, so a count in the header cannot make the parser build more than
  the packet holds; all questions announced are there, and no more records than announced.
\<close>

theorem DnsMessage_parse_bounds:
  assumes "DnsMessage_parse U data = Ok m"
  shows "12 + 5 * length (questions m) +
      11 * (length (answers m) + length (authorities m) + length (additional m)) \<le> length data \<and>
    length (questions m) = unat (question_count (header m)) \<and>
    length (answers m) \<le> unat (answer_count (header m)) \<and>
    length (authorities m) \<le> unat (authority_count (header m)) \<and>
    length (additional m) \<le> unat (additional_count (header m))"
proof -
  obtain off where "DnsMessage_parse_at U data 0 = (Ok m, off)"
    using assms by (cases "DnsMessage_parse_at U data 0") (simp add: DnsMessage_parse_def)
  then obtain h o1 qs o2 an o3 au o4 ad o5 where
    p: "DnsHeader_parse data 0 = (Ok h, o1)"
      "parse_all (DnsQuestion_parse U data) (unat (question_count h)) o1 = (Ok qs, o2)"
      "parse_until_err (DnsRecord_parse U data) (unat (answer_count h)) o2 = (Ok an, o3)"
      "parse_until_err (DnsRecord_parse U data) (unat (authority_count h)) o3 = (Ok au, o4)"
      "parse_until_err (DnsRecord_parse U data) (unat (additional_count h)) o4 = (Ok ad, o5)"
    and m: "m = \<lparr>header = h, questions = qs, answers = an, authorities = au, additional = ad\<rparr>"
    unfolding DnsMessage_parse_at_def bindP_Ok retP_def by auto
  have w1: "12 \<le> o1" "o1 \<le> length data"
    using hd.dec_size [OF _ p(1)] hd.within [OF _ p(1)] by simp_all
  have w2: "o1 + 5 * length qs \<le> o2" "o2 \<le> length data" "length qs = unat (question_count h)"
    using qu.all_size [OF w1(2) p(2)] wpD [OF qu.all_within [OF w1(2)] p(2)] by auto
  have w3: "o2 + 11 * length an \<le> o3" "o3 \<le> length data" "length an \<le> unat (answer_count h)"
    using rr.until_err_size [OF w2(2) p(3)] rr.until_err_within [OF w2(2) p(3)] by auto
  have w4: "o3 + 11 * length au \<le> o4" "o4 \<le> length data" "length au \<le> unat (authority_count h)"
    using rr.until_err_size [OF w3(2) p(4)] rr.until_err_within [OF w3(2) p(4)] by auto
  have w5: "o4 + 11 * length ad \<le> o5" "o5 \<le> length data" "length ad \<le> unat (additional_count h)"
    using rr.until_err_size [OF w4(2) p(5)] rr.until_err_within [OF w4(2) p(5)] by auto
  show ?thesis using w1 w2 w3 w4 w5 by (simp add: m)
qed

theorem DnsMessage_parse_bounds_witness:
  "\<exists>m. DnsMessage_parse plain (DnsMessage_serialize (DnsMessage_new_query 7)) = Ok m \<and>
    length (answers m) \<le> unat (answer_count (header m))"
proof -
  have "wf_message plain (DnsMessage_new_query 7)"
    by (simp add: wf_message_def DnsMessage_new_query_def wf_header_def DnsHeader_new_query_def
        OpCode_from_u8_def ResponseCode_from_u8_def)
  from DnsMessage_read_back [OF this, of "[]"] obtain m where
    "DnsMessage_parse plain (DnsMessage_serialize (DnsMessage_new_query 7)) = Ok m"
    by (simp add: DnsMessage_parse_def)
  then show ?thesis using DnsMessage_parse_bounds by blast
qed

text \<open>
  A packet of 24 bytes makes the parser panic: one answer of type NSEC whose length is zero
  while the name in its data takes one byte, so the slice of its type bitmaps ends before it
  starts.
\<close>

theorem nsec_packet_panics:
  "DnsMessage_parse U
     [0, 0, 0x80, 0, 0, 0, 0, 1, 0, 0, 0, 0, 0, 0, 47, 0, 1, 0, 0, 0, 60, 0, 0, 0] = Panic"
  by (simp add: DnsMessage_parse_def DnsMessage_parse_at_def DnsHeader_parse_def parse_simps
      u16_at_def u8_at_def u16_from_be_bytes_def DnsRecord_parse_def DnsName_parse_def
      DnsName_parse_loop.simps RData_parse_def parse_rdata_of_def parse_NSEC_def
      RecordType_from_u16_def u32_at_def Let_def slice_at_def rd_to_def)

end
