(* ===== verification/Lru.thy ===== *)
theory Lru
  imports Main
begin

text \<open>
  The interface of the \<open>lru\<close> crate (\<open>LruCache\<close>), which the cache of the server is built on
  and whose code is not part of the repository: its operations are a parameter, the record
  \<open>lru_ops\<close>, and what its documentation promises is the locale \<open>lru_store\<close>. The promise is
  stated through a view of the cache as the list of its entries, the most recently used first,
  and its capacity. \<open>list_lru\<close> is the reference instance: the view itself.
\<close>

record ('c, 'k, 'v) lru_ops =
  lru_new :: "nat \<Rightarrow> 'c"
  lru_get :: "'c \<Rightarrow> 'k \<Rightarrow> 'v option \<times> 'c"
  lru_put :: "'c \<Rightarrow> 'k \<Rightarrow> 'v \<Rightarrow> 'c"
  lru_pop :: "'c \<Rightarrow> 'k \<Rightarrow> 'c"
  lru_clear :: "'c \<Rightarrow> 'c"
  lru_len :: "'c \<Rightarrow> nat"

definition without :: "'k \<Rightarrow> ('k \<times> 'v) list \<Rightarrow> ('k \<times> 'v) list" where
  "without k es = filter (\<lambda>p. fst p \<noteq> k) es"

definition list_lru :: "(nat \<times> ('k \<times> 'v) list, 'k, 'v) lru_ops" where
  "list_lru =
     \<lparr>lru_new = (\<lambda>n. (n, [])),
      lru_get = (\<lambda>(n, es) k. case map_of es k of
         None \<Rightarrow> (None, (n, es)) | Some v \<Rightarrow> (Some v, (n, (k, v) # without k es))),
      lru_put = (\<lambda>(n, es) k v. (n, take n ((k, v) # without k es))),
      lru_pop = (\<lambda>(n, es) k. (n, without k es)),
      lru_clear = (\<lambda>(n, es). (n, [])),
      lru_len = (\<lambda>(n, es). length es)\<rparr>"

lemma map_of_without [simp]: "map_of (without k es) = (map_of es)(k := None)"
  by (rule ext, induction es) (auto simp: without_def)

lemma without_absent: "map_of es k = None \<Longrightarrow> without k es = es"
  by (induction es) (auto simp: without_def split: if_splits)

lemma set_without [simp]: "set (without k es) = {p \<in> set es. fst p \<noteq> k}"
  by (auto simp: without_def)

lemma length_without: "length (without k es) \<le> length es"
  by (simp add: without_def)

lemma length_without_present: "map_of es k = Some v \<Longrightarrow> length (without k es) < length es"
  unfolding without_def
  by (metis (mono_tags, lifting) fst_conv length_filter_less map_of_SomeD)

lemma distinct_without: "distinct (map fst es) \<Longrightarrow> distinct (map fst (without k es))"
  by (induction es) (auto simp: without_def)

locale lru_store =
  fixes L :: "('c, 'k, 'v) lru_ops"
    and view :: "'c \<Rightarrow> ('k \<times> 'v) list"
    and cap :: "'c \<Rightarrow> nat"
  assumes new_view: "0 < n \<Longrightarrow> view (lru_new L n) = [] \<and> cap (lru_new L n) = n"
    and get_value: "fst (lru_get L c k) = map_of (view c) k"
    and get_view: "view (snd (lru_get L c k)) = (case map_of (view c) k of
          None \<Rightarrow> view c | Some v \<Rightarrow> (k, v) # without k (view c))"
    and put_view: "view (lru_put L c k v) = take (cap c) ((k, v) # without k (view c))"
    and pop_view: "view (lru_pop L c k) = without k (view c)"
    and clear_view: "view (lru_clear L c) = []"
    and len_view: "lru_len L c = length (view c)"
    and cap_kept: "cap (snd (lru_get L c k)) = cap c" "cap (lru_put L c k v) = cap c"
      "cap (lru_pop L c k) = cap c" "cap (lru_clear L c) = cap c"
begin

text \<open>Looking a key up changes the order of the entries, not what any key maps to.\<close>

lemma get_map: "map_of (view (snd (lru_get L c k))) = map_of (view c)"
  by (auto simp: get_view fun_eq_iff split: option.splits)

lemma get_set: "set (view (snd (lru_get L c k))) \<subseteq> set (view c)"
  by (auto simp: get_view split: option.splits dest: map_of_SomeD)

lemma pop_map: "map_of (view (lru_pop L c k)) = (map_of (view c))(k := None)"
  by (simp add: pop_view)

lemma put_lookup: "0 < cap c \<Longrightarrow> map_of (view (lru_put L c k v)) k = Some v"
  by (cases "cap c") (auto simp: put_view)

lemma put_set: "set (view (lru_put L c k v)) \<subseteq> insert (k, v) (set (view c))"
  by (auto simp: put_view dest: in_set_takeD)

lemma put_lookup_other:
  assumes "k' \<noteq> k" "map_of (view (lru_put L c k v)) k' = Some w"
  shows "map_of (view c) k' = Some w"
proof -
  have "map_of (take n es) x = Some w \<Longrightarrow> map_of es x = Some w" for n es and x :: 'k
    by (induction es arbitrary: n) (auto simp: take_Cons' split: if_splits)
  then have "map_of ((k, v) # without k (view c)) k' = Some w"
    using assms(2) unfolding put_view by blast
  then show ?thesis using assms(1) by simp
qed

lemma put_lookup_same: "map_of (view (lru_put L c k v)) k = Some w \<Longrightarrow> w = v"
  by (cases "cap c") (auto simp: put_view)

lemma put_map_le:
  assumes "map_of (view c) \<subseteq>\<^sub>m m"
  shows "map_of (view (lru_put L c k v)) \<subseteq>\<^sub>m m(k \<mapsto> v)"
  unfolding map_le_def
proof
  fix k' assume "k' \<in> dom (map_of (view (lru_put L c k v)))"
  then obtain w where w: "map_of (view (lru_put L c k v)) k' = Some w" by auto
  show "map_of (view (lru_put L c k v)) k' = (m(k \<mapsto> v)) k'"
  proof (cases "k' = k")
    case False
    then have "map_of (view c) k' = Some w" using w by (rule put_lookup_other)
    then have "m k' = Some w" using assms by (metis domI map_le_def)
    then show ?thesis using w False by simp
  qed (use w put_lookup_same in auto)
qed

text \<open>Below capacity nothing is evicted.\<close>

lemma put_below_capacity:
  assumes "length (view c) < cap c" "k' \<noteq> k"
  shows "map_of (view (lru_put L c k v)) k' = map_of (view c) k'"
  using assms length_without [of k "view c"] by (simp add: put_view)

text \<open>The representation invariant: every key once, no more entries than the capacity.\<close>

definition lru_inv :: "'c \<Rightarrow> bool" where
  "lru_inv c = (distinct (map fst (view c)) \<and> length (view c) \<le> cap c)"

lemma inv_new: "0 < n \<Longrightarrow> lru_inv (lru_new L n)"
  using new_view [of n] by (simp add: lru_inv_def)

lemma inv_get: "lru_inv c \<Longrightarrow> lru_inv (snd (lru_get L c k))"
  using length_without_present [of "view c" k]
  by (auto simp: lru_inv_def get_view cap_kept distinct_without split: option.splits
      intro: less_imp_le dest: Suc_leI order.trans)

lemma inv_put:
  assumes "lru_inv c"
  shows "lru_inv (lru_put L c k v)"
proof -
  have "distinct (map fst ((k, v) # without k (view c)))"
    using assms distinct_without [of "view c" k] by (auto simp: lru_inv_def)
  then show ?thesis
    by (simp add: lru_inv_def put_view cap_kept distinct_take flip: take_map)
qed

lemma inv_pop: "lru_inv c \<Longrightarrow> lru_inv (lru_pop L c k)"
  using length_without [of k "view c"]
  by (auto simp: lru_inv_def pop_view cap_kept distinct_without)

lemma inv_clear: "lru_inv (lru_clear L c)"
  by (simp add: lru_inv_def clear_view)

end

interpretation ll: lru_store list_lru snd fst
  by unfold_locales (auto simp: list_lru_def split: option.splits)

end
