(* ===== verification/Cache.thy ===== *)
theory Cache
  imports Lru Dns_Record
begin

text \<open>
  \<open>src/cache/mod.rs\<close>: the cache of record sets with their time to live. Instants and durations
  are nanoseconds; each operation takes the readings of the clock it makes, in their order
  (\<open>lookup\<close> reads the clock twice). Every operation runs under the cache's write lock, so a
  history of the cache is a sequence of operations.
\<close>

section \<open>Entries\<close>

record CacheEntry =
  e_records :: "DnsRecord list"
  inserted_at :: nat
  e_ttl :: nat

definition nanos :: nat where
  "nanos = 1000000000"

definition is_expired :: "CacheEntry \<Rightarrow> nat \<Rightarrow> bool" where
  "is_expired e now = (now - inserted_at e \<ge> e_ttl e)"

definition remaining_ttl :: "CacheEntry \<Rightarrow> nat \<Rightarrow> u32" where
  "remaining_ttl e now =
     (let elapsed = now - inserted_at e in
      if elapsed \<ge> e_ttl e then 0 else of_nat ((e_ttl e - elapsed) div nanos))"

datatype CacheKey = CacheKey DnsName RecordType

type_synonym 'c cache_ops = "('c, CacheKey, CacheEntry) lru_ops"

section \<open>Operations\<close>

definition DnsCache_new :: "'c cache_ops \<Rightarrow> nat \<Rightarrow> 'c" where
  "DnsCache_new L max_entries = lru_new L (if max_entries = 0 then 10000 else max_entries)"

definition DnsCache_lookup ::
  "'c cache_ops \<Rightarrow> 'c \<Rightarrow> DnsName \<Rightarrow> RecordType \<Rightarrow> nat \<Rightarrow> nat \<Rightarrow> DnsRecord list option \<times> 'c" where
  "DnsCache_lookup L c name record_type t1 t2 =
     (let key = CacheKey name record_type in
      case lru_get L c key of
        (Some entry, c) \<Rightarrow>
          if is_expired entry t1 then (None, lru_pop L c key)
          else let remaining = remaining_ttl entry t2
               in (Some (map (\<lambda>r. r\<lparr>rr_ttl := remaining\<rparr>) (e_records entry)), c)
      | (None, c) \<Rightarrow> (None, c))"

definition min_ttl :: "DnsRecord list \<Rightarrow> u32" where
  "min_ttl records = (case map rr_ttl records of [] \<Rightarrow> 0 | t # ts \<Rightarrow> foldl min t ts)"

definition DnsCache_insert ::
  "'c cache_ops \<Rightarrow> 'c \<Rightarrow> DnsName \<Rightarrow> RecordType \<Rightarrow> DnsRecord list \<Rightarrow> nat \<Rightarrow> 'c" where
  "DnsCache_insert L c name record_type records now =
     (if records = [] then c
      else let mt = min_ttl records in
        if mt = 0 then c
        else let ttl = min mt 86400;
                 key = CacheKey name record_type;
                 entry = \<lparr>e_records = records, inserted_at = now, e_ttl = unat ttl * nanos\<rparr>
             in lru_put L c key entry)"

definition DnsCache_clear :: "'c cache_ops \<Rightarrow> 'c \<Rightarrow> 'c" where
  "DnsCache_clear L c = lru_clear L c"

definition DnsCache_len :: "'c cache_ops \<Rightarrow> 'c \<Rightarrow> nat" where
  "DnsCache_len L c = lru_len L c"

text \<open>A history: the operations in the order in which they took the lock.\<close>

datatype cache_op =
    Lookup DnsName RecordType nat nat
  | Insert DnsName RecordType "DnsRecord list" nat
  | Clear

fun cache_step :: "'c cache_ops \<Rightarrow> 'c \<Rightarrow> cache_op \<Rightarrow> 'c" where
  "cache_step L c (Lookup n t t1 t2) = snd (DnsCache_lookup L c n t t1 t2)"
| "cache_step L c (Insert n t rs now) = DnsCache_insert L c n t rs now"
| "cache_step L c Clear = DnsCache_clear L c"

definition cache_run :: "'c cache_ops \<Rightarrow> 'c \<Rightarrow> cache_op list \<Rightarrow> 'c" where
  "cache_run L c ops = foldl (cache_step L) c ops"

section \<open>Time to live\<close>

lemma foldl_min_le: "foldl min (t :: u32) ts \<le> t \<and> (\<forall>x \<in> set ts. foldl min t ts \<le> x)"
proof (induction ts arbitrary: t)
  case (Cons a ts)
  then show ?case
    using Cons.IH [of "min t a"] by auto
qed simp

lemma min_ttl_le: "r \<in> set rs \<Longrightarrow> min_ttl rs \<le> rr_ttl r"
  using foldl_min_le by (cases rs) (auto simp: min_ttl_def)

lemma nanos_pos [simp]: "0 < nanos"
  by (simp add: nanos_def)

text \<open>
  What an entry of the cache satisfies from its insertion on: some records, and a life time of
  a whole number of seconds, at least one, at most a day, and no longer than the time to live
  of any of its records.
\<close>

definition entry_ok :: "CacheEntry \<Rightarrow> bool" where
  "entry_ok e = (e_records e \<noteq> [] \<and> nanos \<le> e_ttl e \<and> e_ttl e \<le> 86400 * nanos \<and>
     (\<forall>r \<in> set (e_records e). e_ttl e \<le> unat (rr_ttl r) * nanos))"

lemma inserted_entry_ok:
  assumes "records \<noteq> []" "min_ttl records \<noteq> 0"
  shows "entry_ok \<lparr>e_records = records, inserted_at = now,
    e_ttl = unat (min (min_ttl records) 86400) * nanos\<rparr>"
proof -
  have "0 < unat (min_ttl records)" using assms(2) by (simp add: unat_gt_0)
  moreover have "r \<in> set records \<Longrightarrow> unat (min_ttl records) \<le> unat (rr_ttl r)" for r
    using min_ttl_le by (simp add: word_le_nat_alt)
  moreover have "unat (min (min_ttl records) 86400) = min (unat (min_ttl records)) 86400"
    by (simp add: min_def word_le_nat_alt)
  ultimately show ?thesis
    using assms(1) by (auto simp: entry_ok_def min_le_iff_disj)
qed

lemma remaining_ttl_nat:
  assumes "e_ttl e \<le> 86400 * nanos"
  shows "unat (remaining_ttl e now) = (e_ttl e - (now - inserted_at e)) div nanos"
proof -
  have "(e_ttl e - (now - inserted_at e)) div nanos \<le> 86400 * nanos div nanos"
    using assms by (intro div_le_mono) simp
  then show ?thesis
    by (simp add: remaining_ttl_def Let_def unat_of_nat)
qed

lemma remaining_ttl_le:
  assumes "entry_ok e" "r \<in> set (e_records e)"
  shows "remaining_ttl e now \<le> rr_ttl r"
proof -
  have "unat (remaining_ttl e now) \<le> e_ttl e div nanos"
    using assms(1) by (simp add: entry_ok_def remaining_ttl_nat div_le_mono)
  also have "\<dots> \<le> unat (rr_ttl r) * nanos div nanos"
    using assms by (intro div_le_mono) (auto simp: entry_ok_def)
  finally show ?thesis by (simp add: word_le_nat_alt)
qed

text \<open>
  The abstract cache: a map from keys to the entry last inserted, without a capacity and without
  expiry, which the lookup decides.
\<close>

fun spec_step :: "(CacheKey \<rightharpoonup> CacheEntry) \<Rightarrow> cache_op \<Rightarrow> (CacheKey \<rightharpoonup> CacheEntry)" where
  "spec_step m (Lookup n t t1 t2) = m"
| "spec_step m (Insert n t rs now) =
     (if rs = [] \<or> min_ttl rs = 0 then m
      else m(CacheKey n t \<mapsto> \<lparr>e_records = rs, inserted_at = now,
             e_ttl = unat (min (min_ttl rs) 86400) * nanos\<rparr>))"
| "spec_step m Clear = Map.empty"

definition spec_run :: "cache_op list \<Rightarrow> (CacheKey \<rightharpoonup> CacheEntry)" where
  "spec_run ops = foldl spec_step Map.empty ops"

section \<open>The cache over any LRU store\<close>

locale dns_cache = lru_store L view cap
  for L :: "'c cache_ops" and view :: "'c \<Rightarrow> (CacheKey \<times> CacheEntry) list" and cap :: "'c \<Rightarrow> nat"
begin

text \<open>What a lookup returns, and what it does to the entries.\<close>

lemma lookup_value:
  "fst (DnsCache_lookup L c n t t1 t2) = (case map_of (view c) (CacheKey n t) of
     None \<Rightarrow> None
   | Some e \<Rightarrow> if is_expired e t1 then None
       else Some (map (\<lambda>r. r\<lparr>rr_ttl := remaining_ttl e t2\<rparr>) (e_records e)))"
  using get_value [of c "CacheKey n t"]
  by (cases "lru_get L c (CacheKey n t)")
    (auto simp: DnsCache_lookup_def Let_def split: option.splits)

lemma lookup_map:
  "map_of (view (snd (DnsCache_lookup L c n t t1 t2))) = (case map_of (view c) (CacheKey n t) of
     Some e \<Rightarrow> if is_expired e t1 then (map_of (view c))(CacheKey n t := None) else map_of (view c)
   | None \<Rightarrow> map_of (view c))"
  using get_value [of c "CacheKey n t"] get_map [of c "CacheKey n t"]
  by (cases "lru_get L c (CacheKey n t)")
    (auto simp: DnsCache_lookup_def Let_def pop_map split: option.splits)

lemma lookup_set: "set (view (snd (DnsCache_lookup L c n t t1 t2))) \<subseteq> set (view c)"
  using get_set [of c "CacheKey n t"]
  by (cases "lru_get L c (CacheKey n t)")
    (auto simp: DnsCache_lookup_def Let_def pop_view split: option.splits)

lemma insert_cases:
  obtains "DnsCache_insert L c n t rs now = c" "rs = [] \<or> min_ttl rs = 0"
  | "rs \<noteq> []" "min_ttl rs \<noteq> 0"
    "DnsCache_insert L c n t rs now = lru_put L c (CacheKey n t)
       \<lparr>e_records = rs, inserted_at = now, e_ttl = unat (min (min_ttl rs) 86400) * nanos\<rparr>"
  by (cases "rs = [] \<or> min_ttl rs = 0") (auto simp: DnsCache_insert_def Let_def)

text \<open>The invariant of the cache and its preservation by every operation.\<close>

definition cache_inv :: "'c \<Rightarrow> bool" where
  "cache_inv c = (lru_inv c \<and> (\<forall>(k, e) \<in> set (view c). entry_ok e))"

lemma inv_lookup: "cache_inv c \<Longrightarrow> cache_inv (snd (DnsCache_lookup L c n t t1 t2))"
  using lookup_set [of c n t t1 t2] inv_get [of c "CacheKey n t"]
    inv_pop [of "snd (lru_get L c (CacheKey n t))" "CacheKey n t"]
  by (cases "lru_get L c (CacheKey n t)")
    (auto simp: cache_inv_def DnsCache_lookup_def Let_def split: option.splits)

lemma inv_insert:
  assumes "cache_inv c"
  shows "cache_inv (DnsCache_insert L c n t rs now)"
proof (cases rule: insert_cases [of c n t rs now])
  case 2
  then show ?thesis
    using assms inserted_entry_ok [OF 2(1,2), of now] put_set [of c "CacheKey n t"] inv_put [of c]
    by (fastforce simp: cache_inv_def)
qed (use assms in simp)

lemma cache_inv_new: "cache_inv (DnsCache_new L n)"
  using new_view [of n] new_view [of 10000] inv_new [of n] inv_new [of 10000]
  by (auto simp: cache_inv_def DnsCache_new_def)

lemma inv_step: "cache_inv c \<Longrightarrow> cache_inv (cache_step L c op)"
  by (cases op) (simp_all add: inv_lookup inv_insert cache_inv_def [of "lru_clear L c"]
      DnsCache_clear_def clear_view inv_clear)

lemma inv_run: "cache_inv c \<Longrightarrow> cache_inv (cache_run L c ops)"
  unfolding cache_run_def by (induction ops arbitrary: c) (simp_all add: inv_step)

lemma cap_step: "cap (cache_step L c op) = cap c"
proof (cases op)
  case (Lookup n t t1 t2)
  then show ?thesis
    by (cases "lru_get L c (CacheKey n t)")
      (use cap_kept(1) [of c "CacheKey n t"] cap_kept(3)
        in \<open>auto simp: DnsCache_lookup_def Let_def split: option.splits\<close>)
qed (simp_all add: DnsCache_insert_def DnsCache_clear_def Let_def cap_kept)

lemma cap_run: "cap (cache_run L c ops) = cap c"
  unfolding cache_run_def by (induction ops arbitrary: c) (simp_all add: cap_step)

lemma cap_new: "cap (DnsCache_new L n) = (if n = 0 then 10000 else n)"
  using new_view [of n] new_view [of 10000] by (simp add: DnsCache_new_def)

text \<open>The cache against an unbounded map with the entry last inserted under each key.\<close>

lemma view_step_le:
  assumes "map_of (view c) \<subseteq>\<^sub>m m"
  shows "map_of (view (cache_step L c op)) \<subseteq>\<^sub>m spec_step m op"
proof (cases op)
  case (Lookup n t t1 t2)
  then show ?thesis
    using assms by (auto simp: lookup_map map_le_def split: option.splits)
next
  case (Insert n t rs now)
  then show ?thesis
    using assms by (simp add: DnsCache_insert_def Let_def put_map_le)
qed (simp add: DnsCache_clear_def clear_view)

lemma view_run_le:
  "map_of (view c) \<subseteq>\<^sub>m m \<Longrightarrow> map_of (view (cache_run L c ops)) \<subseteq>\<^sub>m foldl spec_step m ops"
  unfolding cache_run_def by (induction ops arbitrary: c m) (simp_all add: view_step_le)

lemma view_history_le: "map_of (view (cache_run L (DnsCache_new L n) ops)) \<subseteq>\<^sub>m spec_run ops"
  using view_run_le [of "DnsCache_new L n" Map.empty ops] new_view [of n] new_view [of 10000]
  by (auto simp: spec_run_def DnsCache_new_def split: if_splits)

end

interpretation dc: dns_cache list_lru snd fst ..

lemma dns_cache_of: "lru_store L view cap \<Longrightarrow> dns_cache L view cap"
  by (simp add: dns_cache_def)

text \<open>A lookup after an insertion, before and after the entry expires.\<close>

lemma lookup_inserted:
  fixes rs :: "DnsRecord list" and now :: nat
  defines "life \<equiv> min (unat (min_ttl rs)) 86400 * nanos"
  assumes "lru_store L view cap" "0 < cap c" "rs \<noteq> []" "min_ttl rs \<noteq> 0"
    and "DnsCache_lookup L (DnsCache_insert L c name t rs now) name t t1 t2 = (r, c')"
  shows "(t1 - now < life \<longrightarrow> (\<exists>ttl. r = Some (map (\<lambda>r. r\<lparr>rr_ttl := ttl\<rparr>) rs) \<and>
      unat ttl = (life - (t2 - now)) div nanos \<and> (\<forall>x \<in> set rs. ttl \<le> rr_ttl x))) \<and>
    (life \<le> t1 - now \<longrightarrow> r = None \<and> map_of (view c') (CacheKey name t) = None)"
proof -
  note d = dns_cache_of [OF assms(2)]
  define e where "e = \<lparr>e_records = rs, inserted_at = now,
      e_ttl = unat (min (min_ttl rs) 86400) * nanos\<rparr>"
  have ok: "entry_ok e" unfolding e_def by (rule inserted_entry_ok [OF assms(4,5)])
  have life: "e_ttl e = life"
    by (simp add: e_def life_def min_def word_le_nat_alt)
  have ins: "DnsCache_insert L c name t rs now = lru_put L c (CacheKey name t) e"
    using assms(4,5) by (simp add: DnsCache_insert_def Let_def e_def)
  have here: "map_of (view (lru_put L c (CacheKey name t) e)) (CacheKey name t) = Some e"
    by (rule lru_store.put_lookup [OF assms(2,3)])
  have r: "r = (if is_expired e t1 then None
      else Some (map (\<lambda>r. r\<lparr>rr_ttl := remaining_ttl e t2\<rparr>) rs))"
    using dns_cache.lookup_value [OF d, of "lru_put L c (CacheKey name t) e" name t t1 t2]
      assms(6) here by (simp add: ins) (simp add: e_def)
  have c': "map_of (view c') (CacheKey name t) = (if is_expired e t1 then None else Some e)"
    using dns_cache.lookup_map [OF d, of "lru_put L c (CacheKey name t) e" name t t1 t2]
      assms(6) here by (simp add: ins)
  have "unat (remaining_ttl e t2) = (life - (t2 - now)) div nanos"
    using remaining_ttl_nat [of e t2] ok life by (simp add: entry_ok_def) (simp add: e_def)
  moreover have "\<forall>x \<in> set rs. remaining_ttl e t2 \<le> rr_ttl x"
    using remaining_ttl_le [OF ok] by (simp add: e_def)
  moreover have "is_expired e t1 \<longleftrightarrow> life \<le> t1 - now"
    by (simp add: is_expired_def life [symmetric]) (simp add: e_def)
  ultimately show ?thesis using r c' by auto
qed

section \<open>Properties\<close>

text \<open>
  C32. Lookups against histories: after any sequence of operations on a new cache, over any
  store that keeps the promises of the \<open>lru\<close> crate, a lookup that returns records returns those
  last inserted under that name and type since the last clear, whose life time has not passed,
  with the remaining time to live. Eviction can lose an entry but never bring back an older one.
\<close>

theorem cache_lookup_history:
  assumes "lru_store L view cap"
    and "fst (DnsCache_lookup L (cache_run L (DnsCache_new L n) ops) name t t1 t2) = Some rs"
  shows "\<exists>e. spec_run ops (CacheKey name t) = Some e \<and> t1 - inserted_at e < e_ttl e \<and>
    rs = map (\<lambda>r. r\<lparr>rr_ttl := remaining_ttl e t2\<rparr>) (e_records e)"
proof -
  let ?c = "cache_run L (DnsCache_new L n) ops"
  note d = dns_cache_of [OF assms(1)]
  obtain e where e: "map_of (view ?c) (CacheKey name t) = Some e" "\<not> is_expired e t1"
    "rs = map (\<lambda>r. r\<lparr>rr_ttl := remaining_ttl e t2\<rparr>) (e_records e)"
    using assms(2) by (auto simp: dns_cache.lookup_value [OF d] split: option.splits if_splits)
  have "spec_run ops (CacheKey name t) = Some e"
    using dns_cache.view_history_le [OF d, of n ops] e(1) by (metis domI map_le_def)
  with e show ?thesis by (auto simp: is_expired_def)
qed

text \<open>An address record, for examples.\<close>

definition sample_record :: DnsRecord where
  "sample_record = DnsRecord_new DnsName_root RecordType.A 60 (RData.A (Ipv4Addr 10 0 0 1))"

theorem cache_lookup_history_witness:
  "\<exists>e. spec_run [Insert DnsName_root RecordType.A [sample_record] 0] (CacheKey DnsName_root RecordType.A)
     = Some e \<and> nanos - inserted_at e < e_ttl e"
proof -
  have "fst (DnsCache_lookup list_lru
      (cache_run list_lru (DnsCache_new list_lru 2) [Insert DnsName_root RecordType.A [sample_record] 0])
      DnsName_root RecordType.A nanos nanos) = Some [sample_record\<lparr>rr_ttl := 59\<rparr>]"
    by (simp add: cache_run_def DnsCache_new_def list_lru_def DnsCache_insert_def DnsCache_lookup_def
        sample_record_def DnsRecord_new_def min_ttl_def Let_def without_def is_expired_def
        remaining_ttl_def nanos_def)
  from cache_lookup_history [OF ll.lru_store_axioms this] show ?thesis by blast
qed

text \<open>
  C33. What was just inserted is found until it expires: records with a positive least time to live
  are returned by a lookup that follows the insertion directly (so that nothing was evicted in
  between) within that time, at most a day, with the whole seconds that remain, never more than any
  record came with; a lookup that follows it after that time returns nothing and removes the entry.
\<close>

theorem cache_insert_lookup:
  fixes rs :: "DnsRecord list" and now :: nat
  defines "life \<equiv> min (unat (min_ttl rs)) 86400 * nanos"
  assumes "lru_store L view cap" "0 < cap c" "rs \<noteq> []" "min_ttl rs \<noteq> 0"
    and "DnsCache_lookup L (DnsCache_insert L c name t rs now) name t t1 t2 = (r, c')"
  shows "(t1 - now < life \<longrightarrow> (\<exists>ttl. r = Some (map (\<lambda>r. r\<lparr>rr_ttl := ttl\<rparr>) rs) \<and>
      unat ttl = (life - (t2 - now)) div nanos \<and> (\<forall>x \<in> set rs. ttl \<le> rr_ttl x))) \<and>
    (life \<le> t1 - now \<longrightarrow> r = None \<and> map_of (view c') (CacheKey name t) = None)"
  unfolding life_def by (rule lookup_inserted [OF assms(2-6)])

theorem cache_insert_lookup_witness:
  "\<exists>ttl. fst (DnsCache_lookup list_lru (DnsCache_insert list_lru (2, []) DnsName_root RecordType.A
      [sample_record] 0) DnsName_root RecordType.A 5 nanos) = Some [sample_record\<lparr>rr_ttl := ttl\<rparr>]"
  using cache_insert_lookup [OF ll.lru_store_axioms, of "(2, [])" "[sample_record]" DnsName_root
      RecordType.A 0 5 nanos
      "fst (DnsCache_lookup list_lru (DnsCache_insert list_lru (2, []) DnsName_root RecordType.A
        [sample_record] 0) DnsName_root RecordType.A 5 nanos)"
      "snd (DnsCache_lookup list_lru (DnsCache_insert list_lru (2, []) DnsName_root RecordType.A
        [sample_record] 0) DnsName_root RecordType.A 5 nanos)"]
  by (auto simp: sample_record_def DnsRecord_new_def min_ttl_def nanos_def)

text \<open>
  C34. The invariant of the cache over all histories: every key is there once, there are never
  more entries than the configured capacity (10000 when it is zero), and every entry holds at
  least one record and lives a whole positive number of seconds, at most a day and no longer than
  any of its records.
\<close>

theorem cache_invariant:
  assumes "lru_store L view cap"
  shows "let c = cache_run L (DnsCache_new L n) ops in
    DnsCache_len L c \<le> (if n = 0 then 10000 else n) \<and> distinct (map fst (view c)) \<and>
    (\<forall>(k, e) \<in> set (view c). entry_ok e)"
proof -
  note d = dns_cache_of [OF assms]
  let ?c = "cache_run L (DnsCache_new L n) ops"
  have "dns_cache.cache_inv view cap ?c"
    by (rule dns_cache.inv_run [OF d dns_cache.cache_inv_new [OF d]])
  moreover have "cap ?c = (if n = 0 then 10000 else n)"
    by (simp only: dns_cache.cap_run [OF d] dns_cache.cap_new [OF d])
  ultimately show ?thesis
    unfolding Let_def DnsCache_len_def lru_store.len_view [OF assms]
    by (simp add: dns_cache.cache_inv_def [OF d] lru_store.lru_inv_def [OF assms])
qed

theorem cache_invariant_witness:
  "DnsCache_len list_lru (cache_run list_lru (DnsCache_new list_lru 1)
     [Insert DnsName_root RecordType.A [sample_record] 0,
      Insert DnsName_root RecordType.NS [sample_record] 0]) \<le> 1"
  using cache_invariant [OF ll.lru_store_axioms, of 1
      "[Insert DnsName_root RecordType.A [sample_record] 0,
        Insert DnsName_root RecordType.NS [sample_record] 0]"]
  by (simp add: Let_def)

end
