(* ===== verification/Zone.thy ===== *)
theory Zone
  imports Dns_Record
begin

text \<open>
  \<open>src/zone/mod.rs\<close>: authoritative zones. \<open>Zone_from_config\<close> builds a zone from its
  definition record by record; \<open>Zone_lookup\<close> and \<open>find_zone\<close> answer from it. The hash map of
  a zone is an association list: the code only looks keys up, appends under a key, and asks
  whether any key has a name, none of which depends on the order of its iteration.
\<close>

section \<open>Configuration\<close>

record SoaConfig =
  sc_mname :: rstr
  sc_rname :: rstr
  sc_serial :: u32
  sc_refresh :: u32
  sc_retry :: u32
  sc_expire :: u32
  sc_minimum :: u32

record RecordConfig =
  rc_name :: rstr
  rc_type :: rstr
  rc_ttl :: "u32 option"
  rc_value :: rstr
  rc_priority :: "u16 option"
  rc_weight :: "u16 option"
  rc_port :: "u16 option"

record ZoneDefinition =
  zd_name :: rstr
  zd_soa :: SoaConfig
  zd_records :: "RecordConfig list"

section \<open>Zones\<close>

type_synonym record_map = "((DnsName \<times> RecordType) \<times> DnsRecord list) list"

record Zone =
  z_name :: DnsName
  z_soa :: DnsRecord
  z_records :: record_map
  z_ns_records :: "DnsRecord list"

definition unwrap_or :: "'a option \<Rightarrow> 'a \<Rightarrow> 'a" where
  "unwrap_or x d = (case x of None \<Rightarrow> d | Some a \<Rightarrow> a)"

text \<open>\<open>DnsName::new(s).map_err(|e| DnsError::ParseError(format!("{}", e)))\<close>\<close>

definition config_name :: "unicode \<Rightarrow> rstr \<Rightarrow> (DnsName, DnsError) res" where
  "config_name U s = map_err (\<lambda>e. ParseError (DnsError_fmt e)) (DnsName_new U s)"

definition config_rdata ::
  "unicode \<Rightarrow> RecordType \<Rightarrow> RecordConfig \<Rightarrow> (RData, DnsError) res" where
  "config_rdata U rtype rec =
     (case rtype of
        RecordType.A \<Rightarrow>
          (case parse_ipv4 (rc_value rec) of
             Some addr \<Rightarrow> Ok (RData.A addr)
           | None \<Rightarrow> Err (ParseError (lit ''Invalid IPv4: '' @ rc_value rec)))
      | RecordType.AAAA \<Rightarrow>
          (case parse_ipv6 (rc_value rec) of
             Some addr \<Rightarrow> Ok (RData.AAAA addr)
           | None \<Rightarrow> Err (ParseError (lit ''Invalid IPv6: '' @ rc_value rec)))
      | RecordType.CNAME \<Rightarrow> res_bind (config_name U (rc_value rec)) (\<lambda>n. Ok (RData.CNAME n))
      | RecordType.NS \<Rightarrow> res_bind (config_name U (rc_value rec)) (\<lambda>n. Ok (RData.NS n))
      | RecordType.MX \<Rightarrow>
          res_bind (config_name U (rc_value rec)) (\<lambda>n.
          Ok (RData.MX (unwrap_or (rc_priority rec) 10) n))
      | RecordType.TXT \<Rightarrow> Ok (RData.TXT [rc_value rec])
      | RecordType.SRV \<Rightarrow>
          res_bind (config_name U (rc_value rec)) (\<lambda>n.
          Ok (RData.SRV (unwrap_or (rc_priority rec) 0) (unwrap_or (rc_weight rec) 0)
                (unwrap_or (rc_port rec) 0) n))
      | RecordType.PTR \<Rightarrow> res_bind (config_name U (rc_value rec)) (\<lambda>n. Ok (RData.PTR n))
      | _ \<Rightarrow> Err (ParseError (lit ''Unsupported zone record type: '' @ rc_type rec)))"

text \<open>One turn of the loop over the records of a definition, up to the finished record.\<close>

definition config_record ::
  "unicode \<Rightarrow> ZoneDefinition \<Rightarrow> DnsName \<Rightarrow> RecordConfig \<Rightarrow> (DnsRecord, DnsError) res" where
  "config_record U def zone_name rec =
     res_bind (if rc_name rec = lit ''@'' then Ok zone_name
               else config_name U (rc_name rec @ [dot] @ zd_name def)) (\<lambda>record_name.
     let ttl = unwrap_or (rc_ttl rec) (sc_minimum (zd_soa def)) in
     case RecordType_from_str_type U (rc_type rec) of
       None \<Rightarrow> Err (ParseError (lit ''Unknown record type: '' @ rc_type rec))
     | Some rtype \<Rightarrow>
         res_bind (config_rdata U rtype rec) (\<lambda>rdata.
         Ok (DnsRecord_new record_name rtype ttl rdata)))"

fun entry_push :: "DnsName \<times> RecordType \<Rightarrow> DnsRecord \<Rightarrow> record_map \<Rightarrow> record_map" where
  "entry_push k r [] = [(k, [r])]"
| "entry_push k r ((k', rs) # m) = (if k' = k then (k', rs @ [r]) # m else (k', rs) # entry_push k r m)"

definition zone_push ::
  "record_map \<times> DnsRecord list \<Rightarrow> DnsRecord \<Rightarrow> record_map \<times> DnsRecord list" where
  "zone_push = (\<lambda>(records, ns_records) record.
     (entry_push (rr_name record, rr_type record) record records,
      if rr_type record = RecordType.NS then ns_records @ [record] else ns_records))"

fun config_loop ::
  "unicode \<Rightarrow> ZoneDefinition \<Rightarrow> DnsName \<Rightarrow> RecordConfig list \<Rightarrow> record_map \<times> DnsRecord list \<Rightarrow>
   (record_map \<times> DnsRecord list, DnsError) res" where
  "config_loop U def zone_name [] acc = Ok acc"
| "config_loop U def zone_name (rec # recs) acc =
     res_bind (config_record U def zone_name rec) (\<lambda>record.
     config_loop U def zone_name recs (zone_push acc record))"

definition Zone_from_config :: "unicode \<Rightarrow> ZoneDefinition \<Rightarrow> (Zone, DnsError) res" where
  "Zone_from_config U def =
     res_bind (map_err (\<lambda>e. ParseError (lit ''Invalid zone name: '' @ DnsError_fmt e))
                 (DnsName_new U (zd_name def))) (\<lambda>zone_name.
     let default_ttl = sc_minimum (zd_soa def) in
     res_bind (config_name U (sc_mname (zd_soa def))) (\<lambda>mname.
     res_bind (config_name U (sc_rname (zd_soa def))) (\<lambda>rname.
     let soa = DnsRecord_new zone_name RecordType.SOA default_ttl
           (RData.SOA mname rname (sc_serial (zd_soa def)) (sc_refresh (zd_soa def))
              (sc_retry (zd_soa def)) (sc_expire (zd_soa def)) (sc_minimum (zd_soa def)))
     in res_bind (config_loop U def zone_name (zd_records def) ([], [])) (\<lambda>(records, ns_records).
        Ok \<lparr>z_name = zone_name, z_soa = soa, z_records = records,
            z_ns_records = ns_records\<rparr>))))"

definition Zone_lookup :: "Zone \<Rightarrow> DnsName \<Rightarrow> RecordType \<Rightarrow> DnsRecord list option" where
  "Zone_lookup z name record_type =
     (if record_type = RecordType.SOA \<and> name = z_name z then Some [z_soa z]
      else if record_type = RecordType.NS \<and> name = z_name z \<and> z_ns_records z \<noteq> []
        then Some (z_ns_records z)
      else map_of (z_records z) (name, record_type))"

definition Zone_contains :: "Zone \<Rightarrow> DnsName \<Rightarrow> bool" where
  "Zone_contains z name = (is_subdomain_of name (z_name z) \<or> name = z_name z)"

definition has_name :: "Zone \<Rightarrow> DnsName \<Rightarrow> bool" where
  "has_name z name =
     (if name = z_name z then True
      else list_ex (\<lambda>((n, _), _). n = name) (z_records z))"

section \<open>The store of zones\<close>

text \<open>\<open>load_config\<close> pushes zone after zone and stops at the first that fails.\<close>

fun load_config ::
  "unicode \<Rightarrow> Zone list \<Rightarrow> ZoneDefinition list \<Rightarrow> (unit, DnsError) res \<times> Zone list" where
  "load_config U zones [] = (Ok (), zones)"
| "load_config U zones (def # defs) =
     (case Zone_from_config U def of
        Ok zone \<Rightarrow> load_config U (zones @ [zone]) defs
      | Err e \<Rightarrow> (Err e, zones) | Panic \<Rightarrow> (Panic, zones))"

text \<open>\<open>Iterator::max_by_key\<close>: of several greatest elements, the last.\<close>

fun max_by_key :: "('a \<Rightarrow> nat) \<Rightarrow> 'a list \<Rightarrow> 'a option" where
  "max_by_key f [] = None"
| "max_by_key f (x # xs) = Some (foldl (\<lambda>a b. if f a > f b then a else b) x xs)"

definition find_zone :: "Zone list \<Rightarrow> DnsName \<Rightarrow> Zone option" where
  "find_zone zones name =
     max_by_key (\<lambda>z. label_count (z_name z)) (filter (\<lambda>z. Zone_contains z name) zones)"

definition ZoneStore_lookup ::
  "Zone list \<Rightarrow> DnsName \<Rightarrow> RecordType \<Rightarrow> DnsRecord list option" where
  "ZoneStore_lookup zones name record_type =
     Option.bind (find_zone zones name) (\<lambda>zone. Zone_lookup zone name record_type)"

section \<open>Lemmas on building a zone\<close>

lemma entry_push_lookup:
  "map_of (entry_push k r m) k' =
     (if k' = k then Some ((case map_of m k of None \<Rightarrow> [] | Some rs \<Rightarrow> rs) @ [r]) else map_of m k')"
  by (induction m) auto

lemma entry_push_keys: "fst ` set (entry_push k r m) = insert k (fst ` set m)"
  by (induction k r m rule: entry_push.induct) auto

definition key_of :: "DnsRecord \<Rightarrow> DnsName \<times> RecordType" where
  "key_of r = (rr_name r, rr_type r)"

definition found :: "DnsRecord list \<Rightarrow> DnsRecord list option" where
  "found rs = (if rs = [] then None else Some rs)"

lemma found_snoc: "found (rs @ [r]) = Some ((case found rs of None \<Rightarrow> [] | Some rs \<Rightarrow> rs) @ [r])"
  by (simp add: found_def)

lemma push_all_lookup:
  "map_of (fst (foldl zone_push ([], []) rs)) k = found (filter (\<lambda>r. key_of r = k) rs)"
  by (induction rs rule: rev_induct)
    (auto simp: zone_push_def entry_push_lookup found_snoc key_of_def case_prod_unfold found_def)

lemma push_all_ns: "snd (foldl zone_push ([], []) rs) = filter (\<lambda>r. rr_type r = RecordType.NS) rs"
  by (induction rs rule: rev_induct) (simp_all add: zone_push_def case_prod_unfold)

lemma push_all_keys: "fst ` set (fst (foldl zone_push ([], []) rs)) = key_of ` set rs"
  by (induction rs rule: rev_induct)
    (auto simp: zone_push_def entry_push_keys key_of_def case_prod_unfold)

lemma config_loop_Ok:
  "config_loop U def zn recs acc = Ok acc' \<longleftrightarrow>
   (\<exists>rs. list_all2 (\<lambda>rec r. config_record U def zn rec = Ok r) recs rs \<and>
      acc' = foldl zone_push acc rs)"
proof (induction recs arbitrary: acc)
  case (Cons rec recs)
  have "(\<exists>rs. (\<exists>y ys. rs = y # ys \<and> P y ys) \<and> Q rs) \<longleftrightarrow> (\<exists>y ys. P y ys \<and> Q (y # ys))"
    for P and Q :: "DnsRecord list \<Rightarrow> bool" by blast
  then show ?case by (simp add: list_all2_Cons1 Cons.IH)
qed auto

text \<open>The records of a zone, in the order of its definition.\<close>

lemma Zone_from_config_Ok:
  assumes "Zone_from_config U def = Ok z"
  obtains rs where
    "DnsName_new U (zd_name def) = Ok (z_name z)"
    "list_all2 (\<lambda>rec r. config_record U def (z_name z) rec = Ok r) (zd_records def) rs"
    "z_records z = fst (foldl zone_push ([], []) rs)"
    "z_ns_records z = snd (foldl zone_push ([], []) rs)"
    "rr_name (z_soa z) = z_name z" "rr_type (z_soa z) = RecordType.SOA"
  using assms
  by (auto simp: Zone_from_config_def Let_def config_loop_Ok DnsRecord_new_def prod_eq_iff)

text \<open>A name written with the zone's name behind it lies below the zone.\<close>

lemma strip_suffix_append:
  "s \<noteq> [] \<Longrightarrow> strip_suffix d (xs @ s) = xs @ strip_suffix d s"
  by (simp add: strip_suffix_def butlast_append)

lemma new_below:
  assumes "DnsName_new U s = Ok z" "DnsName_new U (xs @ [dot] @ s) = Ok n"
  shows "is_subdomain_of n z"
proof (cases "s = [] \<or> s = [dot]")
  case True
  then have "labels z = []" using assms(1) by (auto simp: DnsName_new_def)
  then show ?thesis by (simp add: is_subdomain_of_iff)
next
  case False
  then have z: "labels z = map (to_lowercase U) (split_on dot (strip_suffix dot s))"
    using assms(1) by (auto simp: DnsName_new_def Let_def split: if_splits)
  have "xs @ [dot] @ s \<noteq> [dot]" using False by (cases xs) auto
  then have "labels n = map (to_lowercase U) (split_on dot (strip_suffix dot ((xs @ [dot]) @ s)))"
    using assms(2) by (auto simp: DnsName_new_def Let_def split: if_splits)
  also have "strip_suffix dot ((xs @ [dot]) @ s) = xs @ dot # strip_suffix dot s"
    using False by (subst strip_suffix_append) auto
  finally have "labels n = map (to_lowercase U) (split_on dot xs) @ labels z"
    by (simp add: split_on_append z)
  then show ?thesis by (auto simp: is_subdomain_of_iff)
qed

lemma config_record_below:
  assumes "DnsName_new U (zd_name def) = Ok z" "config_record U def z rec = Ok r"
  shows "is_subdomain_of (rr_name r) z \<and> rr_class r = RecordClass.IN"
  using assms new_below [of U "zd_name def" z "rc_name rec"]
  by (auto simp: config_record_def config_name_def Let_def DnsRecord_new_def
      split: if_splits option.splits)

lemma config_rdata_matches: "config_rdata U t rec = Ok rd \<Longrightarrow> rdata_matches t rd"
  by (auto simp: config_rdata_def parse_ipv6_length split: RecordType.splits option.splits)

lemma config_record_matches:
  "config_record U def z rec = Ok r \<Longrightarrow> rdata_matches (rr_type r) (rr_data r)"
  by (auto simp: config_record_def Let_def DnsRecord_new_def config_rdata_matches
      split: option.splits)

section \<open>Lemmas on looking up\<close>

lemma max_fold:
  "foldl (\<lambda>a b. if (f a :: nat) > f b then a else b) x xs \<in> set (x # xs) \<and>
   (\<forall>y \<in> set (x # xs). f y \<le> f (foldl (\<lambda>a b. if f a > f b then a else b) x xs))"
proof (induction xs arbitrary: x)
  case (Cons a xs)
  let ?y = "if f x > f a then x else a"
  show ?case using Cons.IH [of ?y] by (auto split: if_splits)
qed simp

lemma max_by_key_Some:
  "max_by_key f xs = Some m \<Longrightarrow> m \<in> set xs \<and> (\<forall>y \<in> set xs. f y \<le> f m)"
  by (cases xs) (use max_fold [of f] in auto)

lemma max_by_key_None: "max_by_key f xs = None \<longleftrightarrow> xs = []"
  by (cases xs) auto

lemma Zone_contains_iff: "Zone_contains z n = is_subdomain_of n (z_name z)"
  by (auto simp: Zone_contains_def)

lemma find_zone_Some:
  assumes "find_zone zones n = Some z"
  shows "z \<in> set zones" "is_subdomain_of n (z_name z)"
    "z' \<in> set zones \<Longrightarrow> is_subdomain_of n (z_name z') \<Longrightarrow> is_subdomain_of (z_name z) (z_name z')"
proof -
  note m = max_by_key_Some [OF assms [unfolded find_zone_def]]
  show z: "z \<in> set zones" "is_subdomain_of n (z_name z)"
    using m by (auto simp: Zone_contains_iff)
  assume "z' \<in> set zones" "is_subdomain_of n (z_name z')"
  then show "is_subdomain_of (z_name z) (z_name z')"
    using m by (intro is_subdomain_of_chain [OF _ z(2)]) (auto simp: Zone_contains_iff)
qed

lemma find_zone_None: "find_zone zones n = None \<longleftrightarrow> (\<forall>z \<in> set zones. \<not> is_subdomain_of n (z_name z))"
  by (auto simp: find_zone_def max_by_key_None filter_empty_conv Zone_contains_iff)

lemma load_config_Ok:
  "load_config U zones defs = (Ok (), zones') \<longleftrightarrow>
   (\<exists>zs. list_all2 (\<lambda>def z. Zone_from_config U def = Ok z) defs zs \<and> zones' = zones @ zs)"
  by (induction defs arbitrary: zones) (auto simp: list_all2_Cons1 split: res.splits)

section \<open>Properties\<close>

text \<open>A definition of a zone \<open>e\<close> with its own name server and a delegation, for examples.\<close>

definition sample_zone :: ZoneDefinition where
  "sample_zone =
     \<lparr>zd_name = [101], zd_soa = \<lparr>sc_mname = [109], sc_rname = [114], sc_serial = 1, sc_refresh = 2,
        sc_retry = 3, sc_expire = 4, sc_minimum = 300\<rparr>,
      zd_records =
        [\<lparr>rc_name = [64], rc_type = [78, 83], rc_ttl = None, rc_value = [110], rc_priority = None,
           rc_weight = None, rc_port = None\<rparr>,
         \<lparr>rc_name = [115], rc_type = [110, 115], rc_ttl = Some 60, rc_value = [120],
           rc_priority = None, rc_weight = None, rc_port = None\<rparr>]\<rparr>"

lemma sample_zone_loads:
  "\<exists>z. Zone_from_config plain sample_zone = Ok z \<and> z_name z = DnsName [[101]] \<and>
    z_ns_records z =
      [DnsRecord_new (DnsName [[101]]) RecordType.NS 300 (RData.NS (DnsName [[110]])),
       DnsRecord_new (DnsName [[115], [101]]) RecordType.NS 60 (RData.NS (DnsName [[120]]))]"
  by (simp add: Zone_from_config_def sample_zone_def DnsName_new_def Let_def strip_suffix_def
      to_lowercase_def is_ascii_def ascii_lower_def config_name_def config_record_def lit_def
      RecordType_from_str_type_def to_uppercase_def ascii_upper_def config_rdata_def zone_push_def
      DnsRecord_new_def unwrap_or_def)

text \<open>What a loaded zone holds and answers, in terms of its definition.\<close>

lemma loaded_zone:
  assumes "Zone_from_config U def = Ok z"
  shows "\<exists>rs. list_all2 (\<lambda>rec r. config_record U def (z_name z) rec = Ok r) (zd_records def) rs \<and>
    (\<forall>r \<in> set rs. is_subdomain_of (rr_name r) (z_name z) \<and> rr_class r = RecordClass.IN \<and>
       rdata_matches (rr_type r) (rr_data r)) \<and>
    (\<forall>n t. Zone_lookup z n t =
       (if t = RecordType.SOA \<and> n = z_name z then Some [z_soa z]
        else if t = RecordType.NS \<and> n = z_name z then found (filter (\<lambda>r. rr_type r = RecordType.NS) rs)
        else found (filter (\<lambda>r. rr_name r = n \<and> rr_type r = t) rs))) \<and>
    (\<forall>n. has_name z n \<longleftrightarrow> n = z_name z \<or> (\<exists>r \<in> set rs. rr_name r = n))"
proof -
  from Zone_from_config_Ok [OF assms] obtain rs where rs:
    "DnsName_new U (zd_name def) = Ok (z_name z)"
    "list_all2 (\<lambda>rec r. config_record U def (z_name z) rec = Ok r) (zd_records def) rs"
    "z_records z = fst (foldl zone_push ([], []) rs)"
    "z_ns_records z = snd (foldl zone_push ([], []) rs)" by metis
  have each: "is_subdomain_of (rr_name r) (z_name z) \<and> rr_class r = RecordClass.IN \<and>
      rdata_matches (rr_type r) (rr_data r)" if "r \<in> set rs" for r
  proof -
    from that obtain i where "i < length rs" "r = rs ! i" by (auto simp: in_set_conv_nth)
    then have "config_record U def (z_name z) (zd_records def ! i) = Ok r"
      using rs(2) by (simp add: list_all2_conv_all_nth)
    then show ?thesis using config_record_below [OF rs(1)] config_record_matches by blast
  qed
  have look: "map_of (z_records z) (n, t) = found (filter (\<lambda>r. rr_name r = n \<and> rr_type r = t) rs)" for n t
    by (simp add: rs(3) push_all_lookup key_of_def conj_commute)
  have apex: "filter (\<lambda>r. rr_type r = RecordType.NS) rs = [] \<Longrightarrow>
      filter (\<lambda>r. rr_name r = n \<and> rr_type r = RecordType.NS) rs = []" for n
    by (auto simp: filter_empty_conv)
  have "Zone_lookup z n t =
       (if t = RecordType.SOA \<and> n = z_name z then Some [z_soa z]
        else if t = RecordType.NS \<and> n = z_name z then found (filter (\<lambda>r. rr_type r = RecordType.NS) rs)
        else found (filter (\<lambda>r. rr_name r = n \<and> rr_type r = t) rs))" for n t
    using apex [of n] by (auto simp: Zone_lookup_def look rs(4) push_all_ns found_def)
  moreover have "has_name z n \<longleftrightarrow> n = z_name z \<or> (\<exists>r \<in> set rs. rr_name r = n)" for n
  proof -
    have "fst ` fst ` set (z_records z) = rr_name ` set rs"
      by (simp add: rs(3) push_all_keys image_image key_of_def)
    then have "n \<in> fst ` fst ` set (z_records z) \<longleftrightarrow> n \<in> rr_name ` set rs" by simp
    then show ?thesis by (force simp: has_name_def list_ex_iff)
  qed
  ultimately show ?thesis using rs(2) each by blast
qed

text \<open>
  C35. What a loaded zone answers: its records are those of the definition, one for each and in
  its order, all at or below the zone's name, of class IN and with data of their type. A lookup
  returns the start of authority for the zone's name, all name-server records of the zone for its
  name and NS, and otherwise exactly the records of that name and type in the order of the
  definition, or nothing when there are none; and the zone has a name exactly when it is its own
  or that of a record.
\<close>

theorem Zone_from_config_lookup:
  assumes "Zone_from_config U def = Ok z"
  shows "\<exists>rs. list_all2 (\<lambda>rec r. config_record U def (z_name z) rec = Ok r) (zd_records def) rs \<and>
    (\<forall>r \<in> set rs. is_subdomain_of (rr_name r) (z_name z) \<and> rr_class r = RecordClass.IN \<and>
       rdata_matches (rr_type r) (rr_data r)) \<and>
    (\<forall>n t. Zone_lookup z n t =
       (if t = RecordType.SOA \<and> n = z_name z then Some [z_soa z]
        else if t = RecordType.NS \<and> n = z_name z then found (filter (\<lambda>r. rr_type r = RecordType.NS) rs)
        else found (filter (\<lambda>r. rr_name r = n \<and> rr_type r = t) rs))) \<and>
    (\<forall>n. has_name z n \<longleftrightarrow> n = z_name z \<or> (\<exists>r \<in> set rs. rr_name r = n))"
  by (rule loaded_zone [OF assms])

theorem Zone_from_config_lookup_witness:
  "\<exists>z (rs :: DnsRecord list). Zone_from_config plain sample_zone = Ok z \<and> length rs = 2 \<and>
     (\<forall>r \<in> set rs. is_subdomain_of (rr_name r) (z_name z))"
proof -
  obtain z where z: "Zone_from_config plain sample_zone = Ok z" using sample_zone_loads by blast
  from Zone_from_config_lookup [OF z] obtain rs where
    "list_all2 (\<lambda>rec r. config_record plain sample_zone (z_name z) rec = Ok r) (zd_records sample_zone) rs"
    "\<forall>r \<in> set rs. is_subdomain_of (rr_name r) (z_name z)" by blast
  moreover from this(1) have "length rs = 2"
    by (simp add: list_all2_lengthD [symmetric]) (simp add: sample_zone_def)
  ultimately show ?thesis using z by (intro exI [of _ z] exI [of _ rs]) simp
qed

text \<open>
  C36. The zone that answers for a name is the most specific one: it contains the name, and every
  other zone that does is an ancestor of it; there is none only if no zone contains the name.
\<close>

theorem find_zone_most_specific:
  "(find_zone zones n = None \<longleftrightarrow> (\<forall>z \<in> set zones. \<not> is_subdomain_of n (z_name z))) \<and>
   (find_zone zones n = Some z \<longrightarrow> z \<in> set zones \<and> is_subdomain_of n (z_name z) \<and>
      (\<forall>z' \<in> set zones. is_subdomain_of n (z_name z') \<longrightarrow> is_subdomain_of (z_name z) (z_name z')))"
  using find_zone_None [of zones n] find_zone_Some [of zones n z] by blast

theorem find_zone_most_specific_witness:
  "find_zone [] (DnsName [[97]]) = None"
  using find_zone_most_specific [of "[]" "DnsName [[97]]"] by simp

text \<open>
  A query for the name servers of a zone also returns those of its delegations: with a name
  server for the zone \<open>e\<close> and one for the delegated \<open>s.e\<close>, the answer for \<open>e\<close> has a record of
  \<open>s.e\<close>.
\<close>

theorem apex_ns_includes_delegations:
  "\<exists>z rs r. Zone_from_config plain sample_zone = Ok z \<and>
     Zone_lookup z (z_name z) RecordType.NS = Some rs \<and> r \<in> set rs \<and>
     rr_name r = DnsName [[115], [101]] \<and> rr_name r \<noteq> z_name z"
proof -
  obtain z where z: "Zone_from_config plain sample_zone = Ok z" "z_name z = DnsName [[101]]"
    "z_ns_records z =
      [DnsRecord_new (DnsName [[101]]) RecordType.NS 300 (RData.NS (DnsName [[110]])),
       DnsRecord_new (DnsName [[115], [101]]) RecordType.NS 60 (RData.NS (DnsName [[120]]))]"
    using sample_zone_loads by blast
  then show ?thesis
    by (intro exI [of _ z] exI [of _ "z_ns_records z"]
        exI [of _ "DnsRecord_new (DnsName [[115], [101]]) RecordType.NS 60 (RData.NS (DnsName [[120]]))"])
      (simp add: Zone_lookup_def DnsRecord_new_def)
qed

end
