(* ===== verification/Dnssec.thy ===== *)
theory Dnssec
  imports Dns_Record "HOL-Library.Multiset"
begin

text \<open>
  \<open>src/dnssec/mod.rs\<close>: DNSSEC validation. The signature checks and digests are those of the
  \<open>ring\<close> crate, whose code is not part of the repository: they are a parameter, the record
  \<open>crypto\<close>. The validator's own work is modelled in full: the key formats, the bytes a
  signature covers, key tags, DS records, and the verdict on a response. The clock of a
  verification (whole seconds since the epoch, negative before it) is an argument.
\<close>

section \<open>Algorithms\<close>

datatype DnssecAlgorithm =
    RsaSha1 | RsaSha256 | RsaSha512 | EcdsaP256Sha256 | EcdsaP384Sha384 | Ed25519 | Unknown u8

definition DnssecAlgorithm_from_u8 :: "u8 \<Rightarrow> DnssecAlgorithm" where
  "DnssecAlgorithm_from_u8 val =
     (if val = 5 then RsaSha1 else if val = 8 then RsaSha256 else if val = 10 then RsaSha512
      else if val = 13 then EcdsaP256Sha256 else if val = 14 then EcdsaP384Sha384
      else if val = 15 then Ed25519 else DnssecAlgorithm.Unknown val)"

datatype DigestType = Sha1 | Sha256 | Sha384 | Unknown u8

definition DigestType_from_u8 :: "u8 \<Rightarrow> DigestType" where
  "DigestType_from_u8 val =
     (if val = 1 then Sha1 else if val = 2 then Sha256 else if val = 4 then Sha384
      else DigestType.Unknown val)"

datatype ValidationResult = Secure | Insecure | Bogus | Indeterminate

section \<open>The cryptographic library\<close>

datatype RsaParameters = RSA_PKCS1_2048_8192_SHA256 | RSA_PKCS1_2048_8192_SHA512

datatype VerificationAlgorithm = ECDSA_P256_SHA256_FIXED | ECDSA_P384_SHA384_FIXED | ED25519

record crypto =
  \<comment> \<open>\<open>RsaPublicKeyComponents { n, e }.verify(params, data, signature).is_ok()\<close>\<close>
  rsa_verify :: "RsaParameters \<Rightarrow> bytes \<Rightarrow> bytes \<Rightarrow> bytes \<Rightarrow> bytes \<Rightarrow> bool"
  \<comment> \<open>\<open>UnparsedPublicKey::new(alg, key).verify(data, signature).is_ok()\<close>\<close>
  key_verify :: "VerificationAlgorithm \<Rightarrow> bytes \<Rightarrow> bytes \<Rightarrow> bytes \<Rightarrow> bool"
  sha1_digest :: "bytes \<Rightarrow> bytes"
  sha256_digest :: "bytes \<Rightarrow> bytes"
  sha384_digest :: "bytes \<Rightarrow> bytes"

section \<open>Verifying one signature\<close>

text \<open>The outcome of a check: a verdict, or an error message when the key or signature is
  malformed (the texts of the messages are only logged). An out-of-range slice is a panic.\<close>

definition verify_rsa ::
  "crypto \<Rightarrow> RsaParameters \<Rightarrow> bytes \<Rightarrow> bytes \<Rightarrow> bytes \<Rightarrow> (bool, rstr) res" where
  "verify_rsa C params public_key_data data sig =
     (if public_key_data = [] then Err (lit ''Empty public key'')
      else res_bind (u8_at public_key_data 0) (\<lambda>b0.
        res_bind
          (if b0 = 0 then
             (if length public_key_data < 3 then Err (lit ''RSA key too short'')
              else res_bind (u16_at public_key_data 1) (\<lambda>len. Ok (unat len, 3)))
           else Ok (unat b0, 1)) (\<lambda>(exp_len, offset).
        if offset + exp_len \<ge> length public_key_data then Err (lit ''Invalid RSA key structure'')
        else
          res_bind (slice_at public_key_data offset (offset + exp_len)) (\<lambda>exponent.
          res_bind (slice_at public_key_data (offset + exp_len) (length public_key_data)) (\<lambda>modulus.
          Ok (rsa_verify C params modulus exponent data sig))))))"

definition verify_ecdsa_p256 :: "crypto \<Rightarrow> bytes \<Rightarrow> bytes \<Rightarrow> bytes \<Rightarrow> (bool, rstr) res" where
  "verify_ecdsa_p256 C public_key_data data sig_data =
     (if length public_key_data \<noteq> 64
        then Err (lit ''Invalid P-256 key length: '' @ show_nat (length public_key_data))
      else let uncompressed = [0x04] @ public_key_data in
        if length sig_data \<noteq> 64
          then Err (lit ''Invalid P-256 signature length: '' @ show_nat (length sig_data))
        else Ok (key_verify C ECDSA_P256_SHA256_FIXED uncompressed data sig_data))"

definition verify_ecdsa_p384 :: "crypto \<Rightarrow> bytes \<Rightarrow> bytes \<Rightarrow> bytes \<Rightarrow> (bool, rstr) res" where
  "verify_ecdsa_p384 C public_key_data data sig_data =
     (if length public_key_data \<noteq> 96
        then Err (lit ''Invalid P-384 key length: '' @ show_nat (length public_key_data))
      else let uncompressed = [0x04] @ public_key_data in
        if length sig_data \<noteq> 96
          then Err (lit ''Invalid P-384 signature length: '' @ show_nat (length sig_data))
        else Ok (key_verify C ECDSA_P384_SHA384_FIXED uncompressed data sig_data))"

definition verify_ed25519 :: "crypto \<Rightarrow> bytes \<Rightarrow> bytes \<Rightarrow> bytes \<Rightarrow> (bool, rstr) res" where
  "verify_ed25519 C public_key_data data sig =
     (if length public_key_data \<noteq> 32
        then Err (lit ''Invalid Ed25519 key length: '' @ show_nat (length public_key_data))
      else Ok (key_verify C ED25519 public_key_data data sig))"

definition verify_signature ::
  "crypto \<Rightarrow> DnssecAlgorithm \<Rightarrow> bytes \<Rightarrow> bytes \<Rightarrow> bytes \<Rightarrow> (bool, rstr) res" where
  "verify_signature C algorithm public_key data sig =
     (case algorithm of
        RsaSha256 \<Rightarrow> verify_rsa C RSA_PKCS1_2048_8192_SHA256 public_key data sig
      | RsaSha512 \<Rightarrow> verify_rsa C RSA_PKCS1_2048_8192_SHA512 public_key data sig
      | RsaSha1 \<Rightarrow> verify_rsa C RSA_PKCS1_2048_8192_SHA256 public_key data sig
      | EcdsaP256Sha256 \<Rightarrow> verify_ecdsa_p256 C public_key data sig
      | EcdsaP384Sha384 \<Rightarrow> verify_ecdsa_p384 C public_key data sig
      | Ed25519 \<Rightarrow> verify_ed25519 C public_key data sig
      | DnssecAlgorithm.Unknown n \<Rightarrow>
          Err (lit ''Unsupported DNSSEC algorithm: '' @ show_nat (unat n)))"

text \<open>One record of the signed set, with the original time to live of the signature.\<close>

definition rr_wire :: "u32 \<Rightarrow> DnsRecord \<Rightarrow> bytes" where
  "rr_wire original_ttl r =
     (let rdata = RData_serialize (rr_data r) in
      DnsName_to_wire (rr_name r) @
      u16_to_be_bytes (RecordType_to_u16 (rr_type r)) @
      u16_to_be_bytes (RecordClass_to_u16 (rr_class r)) @
      u32_to_be_bytes original_ttl @
      u16_to_be_bytes (of_nat (length rdata)) @
      rdata)"

text \<open>The signed data: the fields of the RRSIG without the signature, then the set, sorted.\<close>

definition signed_data ::
  "RecordType \<Rightarrow> u8 \<Rightarrow> u8 \<Rightarrow> u32 \<Rightarrow> u32 \<Rightarrow> u32 \<Rightarrow> u16 \<Rightarrow> DnsName \<Rightarrow> DnsRecord list \<Rightarrow> bytes" where
  "signed_data type_covered algorithm sig_labels original_ttl expiration inception key_tag
       signer_name records =
     u16_to_be_bytes (RecordType_to_u16 type_covered) @ [algorithm] @ [sig_labels] @
     u32_to_be_bytes original_ttl @ u32_to_be_bytes expiration @ u32_to_be_bytes inception @
     u16_to_be_bytes key_tag @ DnsName_to_wire signer_name @
     concat (sort (map (rr_wire original_ttl) (filter (\<lambda>r. rr_type r = type_covered) records)))"

text \<open>\<open>duration_since(UNIX_EPOCH).unwrap().as_secs() as u32\<close>: a panic on a clock before the epoch.\<close>

definition unix_seconds :: "int \<Rightarrow> (u32, 'e) res" where
  "unix_seconds clock = (if clock < 0 then Panic else Ok (of_int clock))"

definition verify_rrsig ::
  "crypto \<Rightarrow> int \<Rightarrow> DnsRecord \<Rightarrow> DnsRecord list \<Rightarrow> DnsRecord \<Rightarrow> (ValidationResult, unit) res" where
  "verify_rrsig C clock rrsig records dnskey =
     (case rr_data rrsig of
        RData.RRSIG type_covered sig_algorithm sig_labels original_ttl sig_expiration
            sig_inception key_tag signer_name sig_signature \<Rightarrow>
          (case rr_data dnskey of
             RData.DNSKEY _ _ key_algorithm public_key \<Rightarrow>
               if sig_algorithm \<noteq> key_algorithm then Ok Bogus
               else
                 res_bind (unix_seconds clock) (\<lambda>now.
                 if now < sig_inception \<or> now > sig_expiration then Ok Bogus
                 else
                   let signed_data = signed_data type_covered sig_algorithm sig_labels original_ttl
                         sig_expiration sig_inception key_tag signer_name records;
                       algo = DnssecAlgorithm_from_u8 sig_algorithm
                   in (case verify_signature C algo public_key signed_data sig_signature of
                         Ok True \<Rightarrow> Ok Secure
                       | Ok False \<Rightarrow> Ok Bogus
                       | Err e \<Rightarrow> Ok Indeterminate
                       | Panic \<Rightarrow> Panic))
           | _ \<Rightarrow> Ok Bogus)
      | _ \<Rightarrow> Ok Bogus)"

section \<open>Key tags and DS records\<close>

text \<open>The accumulation loop over the bytes and their indices, in 32 bits.\<close>

fun key_tag_loop :: "nat \<Rightarrow> bytes \<Rightarrow> u32 \<Rightarrow> u32" where
  "key_tag_loop i [] ac = ac"
| "key_tag_loop i (byte # bs) ac =
     key_tag_loop (i + 1) bs
       (if i AND 1 = 0 then ac + push_bit 8 (ucast byte) else ac + ucast byte)"

definition compute_key_tag :: "DnsRecord \<Rightarrow> u16" where
  "compute_key_tag dnskey =
     (let rdata = RData_serialize (rr_data dnskey);
          ac = key_tag_loop 0 rdata 0;
          ac = ac + (drop_bit 16 ac AND 0xFFFF)
      in ucast (ac AND 0xFFFF))"

definition verify_ds :: "crypto \<Rightarrow> DnsRecord \<Rightarrow> DnsRecord \<Rightarrow> bool" where
  "verify_ds C ds dnskey =
     (case rr_data ds of
        RData.DS ds_key_tag ds_algorithm ds_digest_type ds_digest \<Rightarrow>
          (case rr_data dnskey of
             RData.DNSKEY _ _ dk_algorithm _ \<Rightarrow>
               if ds_algorithm \<noteq> dk_algorithm then False
               else if ds_key_tag \<noteq> compute_key_tag dnskey then False
               else
                 let digest_input = DnsName_to_wire (rr_name dnskey) @ RData_serialize (rr_data dnskey)
                 in (case DigestType_from_u8 ds_digest_type of
                       Sha1 \<Rightarrow> sha1_digest C digest_input = ds_digest
                     | Sha256 \<Rightarrow> sha256_digest C digest_input = ds_digest
                     | Sha384 \<Rightarrow> sha384_digest C digest_input = ds_digest
                     | DigestType.Unknown n \<Rightarrow> False)
           | _ \<Rightarrow> False)
      | _ \<Rightarrow> False)"

section \<open>The verdict on a response\<close>

text \<open>The inner loop, over the keys, for a signature with the given key tag. \<open>clock k\<close> is the
  time at the \<open>k\<close>-th verification of the response. The result is whether a verification
  succeeded, with the number of verifications made so far.\<close>

fun try_keys ::
  "crypto \<Rightarrow> (nat \<Rightarrow> int) \<Rightarrow> nat \<Rightarrow> DnsRecord \<Rightarrow> u16 \<Rightarrow> DnsRecord list \<Rightarrow> DnsRecord list \<Rightarrow>
   (bool \<times> nat, unit) res" where
  "try_keys C clock k rrsig key_tag answers [] = Ok (False, k)"
| "try_keys C clock k rrsig key_tag answers (dnskey # dnskeys) =
     (if compute_key_tag dnskey = key_tag then
        res_bind (verify_rrsig C (clock k) rrsig answers dnskey) (\<lambda>result.
        if result = Secure then Ok (True, k + 1)
        else try_keys C clock (k + 1) rrsig key_tag answers dnskeys)
      else try_keys C clock k rrsig key_tag answers dnskeys)"

fun try_sigs ::
  "crypto \<Rightarrow> (nat \<Rightarrow> int) \<Rightarrow> nat \<Rightarrow> DnsRecord list \<Rightarrow> DnsRecord list \<Rightarrow> DnsRecord list \<Rightarrow>
   (ValidationResult, unit) res" where
  "try_sigs C clock k answers dnskeys [] = Ok Indeterminate"
| "try_sigs C clock k answers dnskeys (rrsig # rrsigs) =
     (case rr_data rrsig of
        RData.RRSIG _ _ _ _ _ _ key_tag _ _ \<Rightarrow>
          res_bind (try_keys C clock k rrsig key_tag answers dnskeys) (\<lambda>(found, k).
          if found then Ok Secure else try_sigs C clock k answers dnskeys rrsigs)
      | _ \<Rightarrow> try_sigs C clock k answers dnskeys rrsigs)"

definition validate_response ::
  "crypto \<Rightarrow> (nat \<Rightarrow> int) \<Rightarrow> DnsRecord list \<Rightarrow> (ValidationResult, unit) res" where
  "validate_response C clock answers =
     (let rrsigs = filter (\<lambda>r. rr_type r = RecordType.RRSIG) answers in
      if rrsigs = [] then Ok Insecure
      else let dnskeys = filter (\<lambda>r. rr_type r = RecordType.DNSKEY) answers
           in try_sigs C clock 0 answers dnskeys rrsigs)"

section \<open>Lemmas on signatures\<close>

lemma verify_rsa_no_panic: "verify_rsa C params key data sig \<noteq> Panic"
  by (auto simp: verify_rsa_def Let_def u8_at_def u16_at_def slice_at_def
      split: if_splits)

lemma verify_signature_no_panic: "verify_signature C alg key data sig \<noteq> Panic"
  by (cases alg) (auto simp: verify_signature_def verify_rsa_no_panic verify_ecdsa_p256_def
      verify_ecdsa_p384_def verify_ed25519_def Let_def)

text \<open>When a signature is accepted, and when its check reads the clock.\<close>

definition rrsig_accepted :: "crypto \<Rightarrow> int \<Rightarrow> DnsRecord \<Rightarrow> DnsRecord list \<Rightarrow> DnsRecord \<Rightarrow> bool" where
  "rrsig_accepted C clock rrsig records dnskey =
     (case (rr_data rrsig, rr_data dnskey) of
        (RData.RRSIG covered alg n ttl expiration inception tag signer sig,
         RData.DNSKEY flags protocol key_alg key) \<Rightarrow>
          alg = key_alg \<and> 0 \<le> clock \<and> inception \<le> of_int clock \<and> of_int clock \<le> expiration \<and>
          verify_signature C (DnssecAlgorithm_from_u8 alg) key
            (signed_data covered alg n ttl expiration inception tag signer records) sig = Ok True
      | _ \<Rightarrow> False)"

definition same_algorithm :: "DnsRecord \<Rightarrow> DnsRecord \<Rightarrow> bool" where
  "same_algorithm rrsig dnskey =
     (case (rr_data rrsig, rr_data dnskey) of
        (RData.RRSIG _ alg _ _ _ _ _ _ _, RData.DNSKEY _ _ key_alg _) \<Rightarrow> alg = key_alg | _ \<Rightarrow> False)"

lemma verify_rrsig_outcome:
  "case verify_rrsig C clock rrsig records dnskey of
     Ok v \<Rightarrow> v = Secure \<longleftrightarrow> rrsig_accepted C clock rrsig records dnskey
   | Err _ \<Rightarrow> False
   | Panic \<Rightarrow> same_algorithm rrsig dnskey \<and> clock < 0"
proof (cases "rr_data rrsig")
  case (RRSIG covered alg n ttl expiration inception tag signer sig)
  show ?thesis
  proof (cases "rr_data dnskey")
    case (DNSKEY flags protocol key_alg key)
    then show ?thesis
      using RRSIG verify_signature_no_panic
      by (auto simp: verify_rrsig_def rrsig_accepted_def same_algorithm_def unix_seconds_def Let_def
          split: res.splits bool.splits)
  qed (simp_all add: verify_rrsig_def rrsig_accepted_def RRSIG)
qed (simp_all add: verify_rrsig_def rrsig_accepted_def)

definition rrsig_tag :: "DnsRecord \<Rightarrow> u16 option" where
  "rrsig_tag r = (case rr_data r of RData.RRSIG _ _ _ _ _ _ key_tag _ _ \<Rightarrow> Some key_tag | _ \<Rightarrow> None)"

lemma try_keys_outcome:
  "case try_keys C clock k rrsig tag answers keys of
     Ok (found, k') \<Rightarrow>
       (found \<longrightarrow> (\<exists>key \<in> set keys. \<exists>j. compute_key_tag key = tag \<and>
          rrsig_accepted C (clock j) rrsig answers key)) \<and>
       (\<not> found \<longrightarrow> (\<forall>key \<in> set keys. compute_key_tag key = tag \<longrightarrow>
          (\<exists>j. \<not> rrsig_accepted C (clock j) rrsig answers key)))
   | Err _ \<Rightarrow> False
   | Panic \<Rightarrow> \<exists>key \<in> set keys. \<exists>j. compute_key_tag key = tag \<and> same_algorithm rrsig key \<and> clock j < 0"
proof (induction keys arbitrary: k)
  case (Cons key keys)
  show ?case
  proof (cases "compute_key_tag key = tag")
    case True
    show ?thesis
    proof (cases "verify_rrsig C (clock k) rrsig answers key")
      case (Ok v)
      show ?thesis
      proof (cases "v = Secure")
        case S: True
        then show ?thesis using Ok True verify_rrsig_outcome [where C = C and clock = "clock k" and rrsig = rrsig and records = answers
            and dnskey = key] by auto
      next
        case False
        then have "\<not> rrsig_accepted C (clock k) rrsig answers key"
          using Ok verify_rrsig_outcome [where C = C and clock = "clock k" and rrsig = rrsig and records = answers
            and dnskey = key] by simp
        then show ?thesis
          using Cons.IH [of "k + 1"] Ok True False by (auto split: res.splits prod.splits)
      qed
    qed (use True verify_rrsig_outcome [where C = C and clock = "clock k" and rrsig = rrsig and records = answers
            and dnskey = key] in auto)
  qed (use Cons.IH [of k] in \<open>auto split: res.splits prod.splits\<close>)
qed simp

text \<open>What the verdict on a response means.\<close>

definition verdict_ok ::
  "crypto \<Rightarrow> (nat \<Rightarrow> int) \<Rightarrow> DnsRecord list \<Rightarrow> DnsRecord list \<Rightarrow> DnsRecord list \<Rightarrow>
   (ValidationResult, unit) res \<Rightarrow> bool" where
  "verdict_ok C clock answers keys sigs r = (case r of
     Ok v \<Rightarrow> (v = Secure \<or> v = Indeterminate) \<and>
       (v = Secure \<longrightarrow> (\<exists>sig \<in> set sigs. \<exists>key \<in> set keys. \<exists>j.
          rrsig_tag sig = Some (compute_key_tag key) \<and> rrsig_accepted C (clock j) sig answers key)) \<and>
       (v = Indeterminate \<longrightarrow> (\<forall>sig \<in> set sigs. \<forall>key \<in> set keys.
          rrsig_tag sig = Some (compute_key_tag key) \<longrightarrow>
          (\<exists>j. \<not> rrsig_accepted C (clock j) sig answers key)))
   | Err _ \<Rightarrow> False
   | Panic \<Rightarrow> \<exists>sig \<in> set sigs. \<exists>key \<in> set keys. \<exists>j.
       rrsig_tag sig = Some (compute_key_tag key) \<and> same_algorithm sig key \<and> clock j < 0)"

lemma try_sigs_outcome:
  "verdict_ok C clock answers keys sigs (try_sigs C clock k answers keys sigs)"
proof (induction sigs arbitrary: k)
  case (Cons sig sigs)
  show ?case
  proof (cases "rrsig_tag sig")
    case None
    then have "try_sigs C clock k answers keys (sig # sigs) = try_sigs C clock k answers keys sigs"
      by (auto simp: rrsig_tag_def split: RData.splits)
    then show ?thesis using Cons.IH [of k] None by (auto simp: verdict_ok_def split: res.splits)
  next
    case (Some tag)
    then have step: "try_sigs C clock k answers keys (sig # sigs) =
        res_bind (try_keys C clock k sig tag answers keys) (\<lambda>(found, k).
          if found then Ok Secure else try_sigs C clock k answers keys sigs)"
      by (auto simp: rrsig_tag_def split: RData.splits)
    note t = try_keys_outcome [where C = C and clock = clock and k = k and rrsig = sig
        and tag = tag and answers = answers and keys = keys]
    show ?thesis
    proof (cases "try_keys C clock k sig tag answers keys")
      case (Ok p)
      obtain found k' where p: "p = (found, k')" by fastforce
      show ?thesis
      proof (cases found)
        case True
        then show ?thesis using t Some unfolding step by (auto simp: Ok p verdict_ok_def)
      next
        case False
        then have "try_sigs C clock k answers keys (sig # sigs) = try_sigs C clock k' answers keys sigs"
          unfolding step by (simp add: Ok p)
        then show ?thesis
          using Cons.IH [of k'] t Some False by (auto simp: Ok p verdict_ok_def split: res.splits)
      qed
    qed (use t Some in \<open>auto simp: step verdict_ok_def simp del: try_sigs.simps\<close>)
  qed
qed (simp add: verdict_ok_def)

definition sigs_of :: "DnsRecord list \<Rightarrow> DnsRecord list" where
  "sigs_of = filter (\<lambda>r. rr_type r = RecordType.RRSIG)"

definition keys_of :: "DnsRecord list \<Rightarrow> DnsRecord list" where
  "keys_of = filter (\<lambda>r. rr_type r = RecordType.DNSKEY)"

lemma validate_response_cases:
  "validate_response C clock answers =
     (if sigs_of answers = [] then Ok Insecure
      else try_sigs C clock 0 answers (keys_of answers) (sigs_of answers))"
  by (simp add: validate_response_def Let_def sigs_of_def keys_of_def)

lemma validate_response_outcome:
  "case validate_response C clock answers of
     Ok v \<Rightarrow> v \<noteq> Bogus | Err _ \<Rightarrow> False | Panic \<Rightarrow> \<exists>j. clock j < 0"
  using try_sigs_outcome [where C = C and clock = clock and answers = answers and k = 0
      and keys = "keys_of answers" and sigs = "sigs_of answers"]
  by (auto simp: validate_response_cases verdict_ok_def split: res.splits)

section \<open>Lemmas on key tags\<close>

text \<open>The sum of the big-endian 16-bit words of the key's data, an odd last byte padded.\<close>

fun word_sum :: "bytes \<Rightarrow> nat" where
  "word_sum [] = 0"
| "word_sum [a] = 256 * unat a"
| "word_sum (a # b # bs) = 256 * unat a + unat b + word_sum bs"

lemma word_sum_bound: "word_sum bs \<le> 65535 * ((length bs + 1) div 2)"
proof (induction bs rule: word_sum.induct)
  case (3 a b bs)
  have "256 * unat a + unat b \<le> 65535" using unat_u8_less [of a] unat_u8_less [of b] by linarith
  then show ?case using 3 by simp
qed (use unat_u8_less in \<open>auto simp: less_Suc_eq_le [symmetric]\<close>)

lemma key_tag_loop_sum:
  "even i \<Longrightarrow> key_tag_loop i bs ac = ac + of_nat (word_sum bs)"
proof (induction bs arbitrary: i ac rule: word_sum.induct)
  case (2 a)
  then show ?case by (simp add: and_one_eq push_bit_eq_mult mult.commute flip: word_unat_eq_iff)
next
  case (3 a b bs)
  moreover have "Suc i mod 2 = 1" using 3(2) by presburger
  ultimately show ?case by (simp add: and_one_eq push_bit_eq_mult algebra_simps)
qed simp

section \<open>Properties\<close>

text \<open>
  C37. The verdict on a response never is \<open>Bogus\<close>. It is \<open>Insecure\<close> exactly when there is no
  signature; \<open>Secure\<close> means that some signature in it was accepted with some key in it that has
  the signature's key tag; \<open>Indeterminate\<close> that every such pair was refused. There is no error,
  and a panic only when such a pair, of one algorithm, was checked under a clock before 1970.
\<close>

theorem validate_response_meaning:
  "case validate_response C clock answers of
     Ok v \<Rightarrow> v \<noteq> Bogus \<and> (v = Insecure \<longleftrightarrow> sigs_of answers = []) \<and>
       (v = Secure \<longrightarrow> (\<exists>sig \<in> set (sigs_of answers). \<exists>key \<in> set (keys_of answers). \<exists>j.
          rrsig_tag sig = Some (compute_key_tag key) \<and> rrsig_accepted C (clock j) sig answers key)) \<and>
       (v = Indeterminate \<longrightarrow> (\<forall>sig \<in> set (sigs_of answers). \<forall>key \<in> set (keys_of answers).
          rrsig_tag sig = Some (compute_key_tag key) \<longrightarrow>
          (\<exists>j. \<not> rrsig_accepted C (clock j) sig answers key)))
   | Err _ \<Rightarrow> False
   | Panic \<Rightarrow> \<exists>sig \<in> set (sigs_of answers). \<exists>key \<in> set (keys_of answers). \<exists>j.
       rrsig_tag sig = Some (compute_key_tag key) \<and> same_algorithm sig key \<and> clock j < 0"
  using try_sigs_outcome [where C = C and clock = clock and answers = answers and k = 0
      and keys = "keys_of answers" and sigs = "sigs_of answers"]
  by (cases "sigs_of answers = []")
    (auto simp: validate_response_cases verdict_ok_def split: res.splits)

text \<open>A library that accepts every signature, for examples.\<close>

definition trusting :: crypto where
  "trusting = \<lparr>rsa_verify = (\<lambda>_ _ _ _ _. True), key_verify = (\<lambda>_ _ _ _. True),
     sha1_digest = id, sha256_digest = id, sha384_digest = id\<rparr>"

text \<open>The records of an example: a key, and a signature over text records made with it.\<close>

definition example_key :: DnsRecord where
  "example_key = DnsRecord_new DnsName_root RecordType.DNSKEY 60
     (RData.DNSKEY 257 3 15 (replicate 32 1))"

definition example_sig :: "u16 \<Rightarrow> DnsRecord" where
  "example_sig tag = DnsRecord_new DnsName_root RecordType.RRSIG 60
     (RData.RRSIG RecordType.TXT 15 0 60 90 10 tag DnsName_root [])"

theorem validate_response_meaning_witness:
  "validate_response trusting (\<lambda>_. 50) [example_sig (compute_key_tag example_key), example_key] = Ok Secure \<and>
   rrsig_accepted trusting 50 (example_sig (compute_key_tag example_key))
     [example_sig (compute_key_tag example_key), example_key] example_key"
proof -
  let ?a = "[example_sig (compute_key_tag example_key), example_key]"
  have l: "sigs_of ?a = [example_sig (compute_key_tag example_key)]" "keys_of ?a = [example_key]"
    by (simp_all add: sigs_of_def keys_of_def example_sig_def example_key_def DnsRecord_new_def)
  have "validate_response trusting (\<lambda>_. 50) ?a = Ok Secure"
    by (simp add: validate_response_cases l)
      (simp add: example_sig_def example_key_def DnsRecord_new_def verify_rrsig_def unix_seconds_def
        verify_signature_def verify_ed25519_def DnssecAlgorithm_from_u8_def trusting_def Let_def)
  then show ?thesis
    using validate_response_meaning [where C = trusting and clock = "\<lambda>_. 50" and answers = ?a]
    by (simp add: l)
qed

text \<open>
  C39. What a signature covers does not depend on the order of the records, on records of other
  types, or on the time to live they have reached: two responses with the same multiset of covered
  records up to their time to live give the same signed bytes. Repeated records do count: the code
  does not remove duplicates.
\<close>

theorem signed_data_set:
  assumes "mset (map (rr_ttl_update (\<lambda>_. 0)) (filter (\<lambda>r. rr_type r = covered) rs))
    = mset (map (rr_ttl_update (\<lambda>_. 0)) (filter (\<lambda>r. rr_type r = covered) rs'))"
  shows "signed_data covered alg n ttl expiration inception tag signer rs
    = signed_data covered alg n ttl expiration inception tag signer rs'"
proof -
  let ?f = "filter (\<lambda>r. rr_type r = covered)"
  have w: "map (rr_wire ttl) xs = map (rr_wire ttl) (map (rr_ttl_update (\<lambda>_. 0)) xs)" for xs
    by (simp add: rr_wire_def Let_def comp_def)
  have "mset (map (rr_wire ttl) (?f rs)) = mset (map (rr_wire ttl) (?f rs'))"
    using arg_cong [OF assms, of "image_mset (rr_wire ttl)"]
    unfolding w [of "?f rs"] w [of "?f rs'"] by (simp only: mset_map)
  then have "sort (map (rr_wire ttl) (?f rs)) = sort (map (rr_wire ttl) (?f rs'))"
    by (metis properties_for_sort mset_sort sorted_sort)
  then show ?thesis by (simp add: signed_data_def)
qed

theorem signed_data_set_witness:
  "signed_data RecordType.NS 8 1 60 9 1 7 DnsName_root
     [DnsRecord_new DnsName_root RecordType.NS 5 (RData.NS (DnsName [[97]])),
      DnsRecord_new DnsName_root RecordType.NS 5 (RData.NS (DnsName [[98]]))]
   = signed_data RecordType.NS 8 1 60 9 1 7 DnsName_root
     [DnsRecord_new DnsName_root RecordType.NS 3 (RData.NS (DnsName [[98]])),
      DnsRecord_new DnsName_root RecordType.NS 4 (RData.NS (DnsName [[97]])),
      DnsRecord_new DnsName_root RecordType.TXT 4 (RData.TXT [])]"
  by (rule signed_data_set) (simp add: DnsRecord_new_def add_mset_commute)

text \<open>
  C40. The key tag is that of RFC 4034: the sum of the 16-bit words of the key's data, with its
  carries folded in once, in 16 bits; the 32-bit accumulator does not overflow.
\<close>

theorem key_tag_value:
  assumes "length (RData_serialize (rr_data key)) < 65536"
  shows "unat (compute_key_tag key) =
    (let s = word_sum (RData_serialize (rr_data key)) in (s + s div 65536) mod 65536)"
proof -
  let ?d = "RData_serialize (rr_data key)"
  define s where "s = word_sum ?d"
  have "s \<le> 65535 * ((length ?d + 1) div 2)" using word_sum_bound [of ?d] by (simp add: s_def)
  also have "\<dots> \<le> 65535 * 32768" using assms by (intro mult_le_mono) simp_all
  finally have s: "s \<le> 2147450880" by simp
  define a :: u32 where "a = of_nat s"
  have a: "unat a = s" using s unfolding a_def by (simp add: unat_of_nat)
  have mask: "w AND 0xFFFF = take_bit 16 w" for w :: u32
    by (simp add: take_bit_eq_mask mask_eq_exp_minus_1)
  have hi: "unat (drop_bit 16 a AND 0xFFFF) = s div 65536"
    using s by (simp add: mask unsigned_take_bit_eq unsigned_drop_bit_eq a drop_bit_eq_div
        take_bit_eq_mod unat_div unat_mod)
  have sum: "unat (a + (drop_bit 16 a AND 0xFFFF)) = s + s div 65536"
    using s by (subst unat_add_lem [THEN iffD1]) (simp_all add: hi a)
  have "key_tag_loop 0 ?d 0 = a" by (simp add: key_tag_loop_sum a_def s_def)
  then have "compute_key_tag key = ucast ((a + (drop_bit 16 a AND 0xFFFF)) AND 0xFFFF)"
    by (simp add: compute_key_tag_def Let_def)
  then have "unat (compute_key_tag key) = unat (a + (drop_bit 16 a AND 0xFFFF)) mod 65536"
    by (simp add: mask [of "a + w" for w] unsigned_ucast_eq unsigned_take_bit_eq take_bit_eq_mod
        unat_mod)
  then show ?thesis by (simp only: sum Let_def s_def)
qed

theorem key_tag_value_witness:
  "unat (compute_key_tag (DnsRecord_new DnsName_root RecordType.DNSKEY 60 (RData.DNSKEY 257 3 8 [1, 2])))
    = (let s = word_sum [1, 1, 3, 8, 1, 2] in (s + s div 65536) mod 65536)"
  using key_tag_value [of "DnsRecord_new DnsName_root RecordType.DNSKEY 60 (RData.DNSKEY 257 3 8 [1, 2])"]
  by (simp add: DnsRecord_new_def u16_to_be_bytes_def)

text \<open>The digest of a DS record, by its type, over the owner name and the data of a key.\<close>

definition ds_digest :: "crypto \<Rightarrow> DnsRecord \<Rightarrow> (bytes \<Rightarrow> bytes) option" where
  "ds_digest C ds = (case rr_data ds of
     RData.DS _ _ ty _ \<Rightarrow>
       (case DigestType_from_u8 ty of
          Sha1 \<Rightarrow> Some (sha1_digest C) | Sha256 \<Rightarrow> Some (sha256_digest C)
        | Sha384 \<Rightarrow> Some (sha384_digest C) | DigestType.Unknown _ \<Rightarrow> None)
   | _ \<Rightarrow> None)"

definition digest_input :: "DnsRecord \<Rightarrow> bytes" where
  "digest_input dnskey = DnsName_to_wire (rr_name dnskey) @ RData_serialize (rr_data dnskey)"

lemma verify_ds_iff:
  "verify_ds C ds dnskey \<longleftrightarrow> (\<exists>tag alg ty digest flags protocol key h.
     rr_data ds = RData.DS tag alg ty digest \<and> rr_data dnskey = RData.DNSKEY flags protocol alg key \<and>
     tag = compute_key_tag dnskey \<and> ds_digest C ds = Some h \<and> h (digest_input dnskey) = digest)"
proof (cases "rr_data ds")
  case (DS tag alg ty digest)
  show ?thesis
  proof (cases "rr_data dnskey")
    case (DNSKEY flags protocol alg' key)
    then show ?thesis
      by (cases "DigestType_from_u8 ty")
        (auto simp: verify_ds_def ds_digest_def digest_input_def DS Let_def)
  qed (simp_all add: verify_ds_def DS)
qed (simp_all add: verify_ds_def)

lemma u16_bytes_inj: "u16_to_be_bytes v = u16_to_be_bytes w \<longleftrightarrow> v = w"
  using u16_at_be [of v "[]"] u16_at_be [of w "[]"] by (metis res.inject(1))

lemma DNSKEY_serialize_inj:
  "RData_serialize (RData.DNSKEY f p a k) = RData_serialize (RData.DNSKEY f' p' a' k') \<longleftrightarrow>
   RData.DNSKEY f p a k = RData.DNSKEY f' p' a' k'"
  by (auto simp: u16_bytes_inj)



end
