(* ===== verification/Effects.thy ===== *)
theory Effects
  imports Message Cache Zone Dnssec
begin

text \<open>
  What the server's asynchronous code runs on. Its state is the cache and the position in the
  environment's script; what the environment does (clocks, random numbers, the outcome of every
  send, receive and connection) is the record \<open>world\<close>, a function of that position, so that
  every behaviour of the network is some \<open>world\<close>. The cache is shared by all tasks: \<open>w_others\<close> are
  the operations other tasks perform on it before this task's operation at a position. The
  state also records, for the proofs only, the history of the cache: all operations performed on
  it, in their order, those of other tasks included. A computation gives \<open>None\<close> when a referral
  loop has not ended after the number of rounds given as fuel. \<open>runs\<close> is the contract of a
  computation, with one rule per way of composing computations.
\<close>

section \<open>The environment\<close>

datatype SocketAddr = SocketAddr Ipv4Addr u16

text \<open>\<open>recv_from\<close> under its timeout: a datagram with the address it came from, which may be any.\<close>

datatype recv = Datagram bytes SocketAddr | RecvError | Timeout

record world =
  w_instant :: "nat \<Rightarrow> nat"
  \<comment> \<open>the system clock, in whole seconds since the epoch, at each verification of a response\<close>
  w_unix :: "nat \<Rightarrow> nat \<Rightarrow> int"
  w_random16 :: "nat \<Rightarrow> u16"
  w_random64 :: "nat \<Rightarrow> u64"
  w_bind :: "nat \<Rightarrow> bool"
  w_send :: "nat \<Rightarrow> bytes \<Rightarrow> SocketAddr \<Rightarrow> bool"
  \<comment> \<open>what arrives after a datagram was sent, which may depend on it and on where it went\<close>
  w_recv :: "nat \<Rightarrow> bytes \<Rightarrow> SocketAddr \<Rightarrow> recv"
  w_connect :: "nat \<Rightarrow> SocketAddr \<Rightarrow> bool"
  w_write :: "nat \<Rightarrow> bytes \<Rightarrow> bool"
  w_stream :: "nat \<Rightarrow> bytes \<Rightarrow> SocketAddr \<Rightarrow> bytes"
  w_others :: "nat \<Rightarrow> cache_op list"

text \<open>What a resolver is configured with; the zones are only read.\<close>

record resolver =
  r_unicode :: unicode
  r_zones :: "Zone list"
  r_crypto :: crypto
  r_dnssec :: bool
  r_world :: world

record 'c rstate =
  cache :: 'c
  history :: "cache_op list"
  tick :: nat

definition fresh_state :: "'c cache_ops \<Rightarrow> nat \<Rightarrow> 'c rstate" where
  "fresh_state L max_entries = \<lparr>cache = DnsCache_new L max_entries, history = [], tick = 0\<rparr>"

section \<open>Computations\<close>

type_synonym ('a, 'e, 'c) comp = "'c rstate \<Rightarrow> ('a, 'e) res option \<times> 'c rstate"

definition retR :: "'a \<Rightarrow> ('a, 'e, 'c) comp" where
  "retR a = (\<lambda>s. (Some (Ok a), s))"

definition failR :: "'e \<Rightarrow> ('a, 'e, 'c) comp" where
  "failR e = (\<lambda>s. (Some (Err e), s))"

definition panicR :: "('a, 'e, 'c) comp" where
  "panicR = (\<lambda>s. (Some Panic, s))"

definition outR :: "('a, 'e, 'c) comp" where
  "outR = (\<lambda>s. (None, s))"

text \<open>\<open>match m { Ok(a) => f(a), Err(e) => h(e) }\<close>; a panic goes through.\<close>

definition matchR ::
  "('a, 'e, 'c) comp \<Rightarrow> ('a \<Rightarrow> ('b, 'f, 'c) comp) \<Rightarrow> ('e \<Rightarrow> ('b, 'f, 'c) comp) \<Rightarrow> ('b, 'f, 'c) comp" where
  "matchR m f h = (\<lambda>s. case m s of
     (Some (Ok a), s') \<Rightarrow> f a s' | (Some (Err e), s') \<Rightarrow> h e s'
   | (Some Panic, s') \<Rightarrow> (Some Panic, s') | (None, s') \<Rightarrow> (None, s'))"

abbreviation bindR :: "('a, 'e, 'c) comp \<Rightarrow> ('a \<Rightarrow> ('b, 'e, 'c) comp) \<Rightarrow> ('b, 'e, 'c) comp" where
  "bindR m f \<equiv> matchR m f failR"

text \<open>One interaction with the environment: its value at the present position.\<close>

definition askR :: "(nat \<Rightarrow> 'a) \<Rightarrow> ('a, 'e, 'c) comp" where
  "askR w = (\<lambda>s. (Some (Ok (w (tick s))), s\<lparr>tick := tick s + 1\<rparr>))"

text \<open>The cache as this task finds it: other tasks may have used it since.\<close>

definition sharedR :: "'c cache_ops \<Rightarrow> resolver \<Rightarrow> 'c rstate \<Rightarrow> 'c" where
  "sharedR L X s = cache_run L (cache s) (w_others (r_world X) (tick s))"

definition recordR :: "resolver \<Rightarrow> cache_op \<Rightarrow> 'c rstate \<Rightarrow> cache_op list" where
  "recordR X op s = history s @ w_others (r_world X) (tick s) @ [op]"

definition lookupR ::
  "'c cache_ops \<Rightarrow> resolver \<Rightarrow> DnsName \<Rightarrow> RecordType \<Rightarrow> (DnsRecord list option, 'e, 'c) comp" where
  "lookupR L X name t =
     bindR (askR (w_instant (r_world X))) (\<lambda>t1. bindR (askR (w_instant (r_world X))) (\<lambda>t2.
     \<lambda>s. case DnsCache_lookup L (sharedR L X s) name t t1 t2 of
           (r, c) \<Rightarrow>
             (Some (Ok r), s\<lparr>cache := c, history := recordR X (Lookup name t t1 t2) s\<rparr>)))"

definition insertR ::
  "'c cache_ops \<Rightarrow> resolver \<Rightarrow> DnsName \<Rightarrow> RecordType \<Rightarrow> DnsRecord list \<Rightarrow> (unit, 'e, 'c) comp" where
  "insertR L X name t records =
     bindR (askR (w_instant (r_world X))) (\<lambda>now.
     \<lambda>s. (Some (Ok ()), s\<lparr>cache := DnsCache_insert L (sharedR L X s) name t records now,
            history := recordR X (Insert name t records now) s\<rparr>))"

section \<open>Contracts\<close>

text \<open>
  \<open>runs I p d E Q m\<close>: from a cache and history with \<open>I\<close>, \<open>m\<close> ends with such ones; what it returns
  has \<open>Q\<close>; it fails only with an error that has \<open>E\<close>; it panics only if \<open>p\<close>, and runs out of
  fuel only if \<open>d\<close>.
\<close>

definition runs ::
  "('c \<Rightarrow> cache_op list \<Rightarrow> bool) \<Rightarrow> bool \<Rightarrow> bool \<Rightarrow> ('e \<Rightarrow> bool) \<Rightarrow> ('a \<Rightarrow> bool) \<Rightarrow> ('a, 'e, 'c) comp \<Rightarrow> bool" where
  "runs I p d E Q m = (\<forall>s. I (cache s) (history s) \<longrightarrow>
     I (cache (snd (m s))) (history (snd (m s))) \<and>
     (case fst (m s) of
        None \<Rightarrow> d | Some (Ok a) \<Rightarrow> Q a | Some (Err e) \<Rightarrow> E e | Some Panic \<Rightarrow> p))"

lemma runsD:
  assumes "runs I p d E Q m" "I (cache s) (history s)"
  shows "I (cache (snd (m s))) (history (snd (m s)))"
    and "m s = (Some (Ok a), s') \<Longrightarrow> Q a"
    and "m s = (Some Panic, s') \<Longrightarrow> p"
    and "m s = (None, s') \<Longrightarrow> d"
    and "m s = (Some (Err e), s') \<Longrightarrow> E e"
  using assms by (auto simp: runs_def split: option.splits res.splits)

lemma runs_conseq: "runs I p d E Q m \<Longrightarrow> (\<And>a. Q a \<Longrightarrow> R a) \<Longrightarrow> runs I p d E R m"
  by (fastforce simp: runs_def split: option.splits res.splits)

lemma runs_weaken:
  "runs I p d E Q m \<Longrightarrow> (\<And>e. E e \<Longrightarrow> E' e) \<Longrightarrow> runs I True True E' Q m"
  by (fastforce simp: runs_def split: option.splits res.splits)

lemma runs_retR: "Q a \<Longrightarrow> runs I p d E Q (retR a)"
  by (simp add: runs_def retR_def)

lemma runs_failR: "E e \<Longrightarrow> runs I p d E Q (failR e)"
  by (simp add: runs_def failR_def)

lemma runs_panicR: "p \<Longrightarrow> runs I p d E Q panicR"
  by (simp add: runs_def panicR_def)

lemma runs_outR: "d \<Longrightarrow> runs I p d E Q outR"
  by (simp add: runs_def outR_def)

lemma runs_matchR:
  assumes "runs I p d E Q m" "\<And>a. Q a \<Longrightarrow> runs I p d F R (f a)"
    "\<And>e. E e \<Longrightarrow> runs I p d F R (h e)"
  shows "runs I p d F R (matchR m f h)"
  unfolding runs_def
proof (intro allI impI)
  fix s :: "'a rstate" assume s: "I (cache s) (history s)"
  obtain r s' where m: "m s = (r, s')" by fastforce
  have s': "I (cache s') (history s')" using runsD(1) [OF assms(1) s] by (simp add: m)
  show "I (cache (snd (matchR m f h s))) (history (snd (matchR m f h s))) \<and>
    (case fst (matchR m f h s) of
      None \<Rightarrow> d | Some (Ok a) \<Rightarrow> R a | Some (Err e) \<Rightarrow> F e | Some Panic \<Rightarrow> p)"
  proof (cases r)
    case None
    then show ?thesis using runsD(4) [OF assms(1) s] s' by (simp add: matchR_def m)
  next
    case (Some x)
    show ?thesis
    proof (cases x)
      case (Ok a)
      then have "Q a" using runsD(2) [OF assms(1) s] by (simp add: m Some)
      then show ?thesis using assms(2) s' by (simp add: matchR_def m Some Ok runs_def)
    next
      case (Err e)
      then have "E e" using runsD(5) [OF assms(1) s] by (simp add: m Some)
      then show ?thesis using assms(3) s' by (simp add: matchR_def m Some Err runs_def)
    next
      case Panic
      then show ?thesis using runsD(3) [OF assms(1) s] s' by (simp add: matchR_def m Some)
    qed
  qed
qed

lemma runs_bindR:
  "runs I p d E Q m \<Longrightarrow> (\<And>a. Q a \<Longrightarrow> runs I p d E R (f a)) \<Longrightarrow> runs I p d E R (bindR m f)"
  by (rule runs_matchR [where Q = Q and E = E]) (auto intro: runs_failR)

lemma runs_ask:
  "(\<And>k. runs I p d E Q (f (w k))) \<Longrightarrow> runs I p d E Q (matchR (askR w) f h)"
  by (simp add: runs_def matchR_def askR_def)

lemma runs_if:
  "(b \<Longrightarrow> runs I p d E Q m) \<Longrightarrow> (\<not> b \<Longrightarrow> runs I p d E Q n) \<Longrightarrow>
   runs I p d E Q (if b then m else n)"
  by simp

end
