(* ===== verification/Resolver.thy ===== *)
theory Resolver
  imports Effects
begin

text \<open>
  \<open>src/resolver/mod.rs\<close>: the recursive resolver, from the datagrams and streams exchanged with a
  name server up to \<open>resolve\<close>: authoritative zones first, then the cache, then the referral loop
  from the root servers, with the chains of aliases.
\<close>

section \<open>Constants\<close>

definition ROOT_SERVERS :: "(string \<times> string) list" where
  "ROOT_SERVERS =
     [(''a.root-servers.net'', ''198.41.0.4''),
      (''b.root-servers.net'', ''170.247.170.2''),
      (''c.root-servers.net'', ''192.33.4.12''),
      (''d.root-servers.net'', ''199.7.91.13''),
      (''e.root-servers.net'', ''192.203.230.10''),
      (''f.root-servers.net'', ''192.5.5.241''),
      (''g.root-servers.net'', ''192.112.36.4''),
      (''h.root-servers.net'', ''198.97.190.53''),
      (''i.root-servers.net'', ''192.36.148.17''),
      (''j.root-servers.net'', ''192.58.128.30''),
      (''k.root-servers.net'', ''193.0.14.129''),
      (''l.root-servers.net'', ''199.7.83.42''),
      (''m.root-servers.net'', ''202.12.27.33'')]"

definition MAX_RECURSION_DEPTH :: nat where
  "MAX_RECURSION_DEPTH = 32"

definition MAX_CNAME_CHAIN :: nat where
  "MAX_CNAME_CHAIN = 16"

definition MAX_RETRIES :: nat where
  "MAX_RETRIES = 3"

section \<open>Asking a name server\<close>

text \<open>\<open>read_exact(n)\<close> on what is left of a stream.\<close>

definition read_exact :: "nat \<Rightarrow> bytes \<Rightarrow> (bytes \<times> bytes) option" where
  "read_exact n stream = (if length stream < n then None else Some (take n stream, drop n stream))"

definition tcp_query :: "u16 \<Rightarrow> DnsName \<Rightarrow> RecordType \<Rightarrow> DnsMessage" where
  "tcp_query i name record_type =
     (let query = DnsMessage_new_query i;
          query = query\<lparr>header := (header query)\<lparr>recursion_desired := False\<rparr>\<rparr>
      in query\<lparr>questions := questions query @ [DnsQuestion_new name record_type]\<rparr>)"

definition query_tcp ::
  "resolver \<Rightarrow> DnsName \<Rightarrow> RecordType \<Rightarrow> SocketAddr \<Rightarrow> (DnsMessage, ResponseCode, 'c) comp" where
  "query_tcp X name record_type server =
     (let W = r_world X in
      bindR (askR (\<lambda>t. w_connect W t server)) (\<lambda>connected.
      if \<not> connected then failR ServerFailure
      else bindR (askR (w_random16 W)) (\<lambda>i.
        let query_bytes = DnsMessage_serialize (tcp_query i name record_type);
            len = (of_nat (length query_bytes) :: u16)
        in bindR (askR (\<lambda>t. w_write W t (u16_to_be_bytes len))) (\<lambda>wrote_len.
           if \<not> wrote_len then failR ServerFailure
           else bindR (askR (\<lambda>t. w_write W t query_bytes)) (\<lambda>wrote.
             if \<not> wrote then failR ServerFailure
             else bindR (askR (\<lambda>t. w_stream W t query_bytes server)) (\<lambda>stream.
               case read_exact 2 stream of
                 None \<Rightarrow> failR ServerFailure
               | Some (len_buf, stream) \<Rightarrow>
                   (case (u16_at len_buf 0 :: (u16, DnsError) res) of
                      Ok resp_len \<Rightarrow>
                        (case read_exact (unat resp_len) stream of
                           None \<Rightarrow> failR ServerFailure
                         | Some (resp_buf, _) \<Rightarrow>
                             (case DnsMessage_parse (r_unicode X) resp_buf of
                                Ok m \<Rightarrow> retR m
                              | Err _ \<Rightarrow> failR ServerFailure
                              | Panic \<Rightarrow> panicR))
                    | _ \<Rightarrow> panicR)))))))"

definition udp_query :: "resolver \<Rightarrow> u16 \<Rightarrow> DnsName \<Rightarrow> RecordType \<Rightarrow> DnsMessage" where
  "udp_query X i name record_type =
     (let query = DnsMessage_new_query i;
          query = query\<lparr>header := (header query)\<lparr>recursion_desired := False\<rparr>\<rparr>;
          query =
            (if r_dnssec X then
               query\<lparr>header := (header query)\<lparr>authentic_data := True\<rparr>,
                 additional := additional query @
                   [\<lparr>rr_name = DnsName_root, rr_type = RecordType.OPT,
                     rr_class = RecordClass.Unknown 4096, rr_ttl = 0x00008000,
                     rr_data = RData.OPT []\<rparr>]\<rparr>
             else query)
      in query\<lparr>questions := questions query @ [DnsQuestion_new name record_type]\<rparr>)"

text \<open>\<open>(0..MAX_RETRIES).map(|i| (i + rng.gen::<usize>()) % nameservers.len())\<close>, in the release
  profile's wrapping arithmetic; the remainder by zero panics.\<close>

fun ns_offsets :: "resolver \<Rightarrow> nat \<Rightarrow> nat list \<Rightarrow> (nat list, ResponseCode, 'c) comp" where
  "ns_offsets X n [] = retR []"
| "ns_offsets X n (i # is) =
     bindR (askR (w_random64 (r_world X))) (\<lambda>r.
     if n = 0 then panicR
     else bindR (ns_offsets X n is) (\<lambda>os. retR (unat (of_nat i + r) mod n # os)))"

text \<open>The retries. A datagram is cut to the 4096 bytes of the buffer; it is taken whatever its
  source address, if it parses and its id is that of the query.\<close>

fun try_nameservers ::
  "resolver \<Rightarrow> DnsName \<Rightarrow> RecordType \<Rightarrow> SocketAddr list \<Rightarrow> u16 \<Rightarrow> bytes \<Rightarrow> nat list \<Rightarrow>
   (DnsMessage, ResponseCode, 'c) comp" where
  "try_nameservers X name record_type nameservers i query_bytes [] = failR ServerFailure"
| "try_nameservers X name record_type nameservers i query_bytes (ns_idx # offsets) =
     (if ns_idx \<ge> length nameservers then panicR
      else
        let ns = nameservers ! ns_idx;
            next_try = try_nameservers X name record_type nameservers i query_bytes offsets
        in bindR (askR (\<lambda>t. w_send (r_world X) t query_bytes ns)) (\<lambda>sent.
           if \<not> sent then next_try
           else bindR (askR (\<lambda>t. w_recv (r_world X) t query_bytes ns)) (\<lambda>got.
             case got of
               Datagram d sender \<Rightarrow>
                 (case DnsMessage_parse (r_unicode X) (take 4096 d) of
                    Ok response \<Rightarrow>
                      if h_id (header response) = i then
                        if truncated (header response) then
                          matchR (query_tcp X name record_type ns) retR (\<lambda>_. retR response)
                        else retR response
                      else next_try
                  | Err _ \<Rightarrow> next_try
                  | Panic \<Rightarrow> panicR)
             | RecvError \<Rightarrow> next_try
             | Timeout \<Rightarrow> next_try)))"

definition query_nameservers ::
  "resolver \<Rightarrow> DnsName \<Rightarrow> RecordType \<Rightarrow> SocketAddr list \<Rightarrow> (DnsMessage, ResponseCode, 'c) comp" where
  "query_nameservers X name record_type nameservers =
     bindR (askR (w_bind (r_world X))) (\<lambda>bound.
     if \<not> bound then failR ServerFailure
     else bindR (askR (w_random16 (r_world X))) (\<lambda>i.
       let query_bytes = DnsMessage_serialize (udp_query X i name record_type)
       in bindR (ns_offsets X (length nameservers) [0..<MAX_RETRIES]) (\<lambda>offsets.
          try_nameservers X name record_type nameservers i query_bytes offsets)))"

section \<open>Aliases\<close>

text \<open>The target of the last record of a chain.\<close>

definition last_target :: "DnsRecord list \<Rightarrow> DnsName option" where
  "last_target cnames =
     (if cnames = [] then None
      else case rr_data (last cnames) of RData.CNAME name \<Rightarrow> Some name | _ \<Rightarrow> None)"

text \<open>The loop over the aliases found for the current name: chain and current name.\<close>

fun extend_chain :: "DnsRecord list \<Rightarrow> DnsRecord list \<Rightarrow> DnsName \<Rightarrow> DnsRecord list \<times> DnsName" where
  "extend_chain [] chain current = (chain, current)"
| "extend_chain (r # rs) chain current =
     (case rr_data r of
        RData.CNAME name \<Rightarrow> extend_chain rs (chain @ [r]) name
      | _ \<Rightarrow> extend_chain rs chain current)"

text \<open>The loop that follows the chain; \<open>rec\<close> is the resolution one level deeper.\<close>

fun cname_loop ::
  "(DnsName \<Rightarrow> RecordType \<Rightarrow> (DnsRecord list, ResponseCode, 'c) comp) \<Rightarrow> RecordType \<Rightarrow> nat \<Rightarrow>
   DnsRecord list \<Rightarrow> DnsName \<Rightarrow> (DnsRecord list, ResponseCode, 'c) comp" where
  "cname_loop rec target_type 0 chain current_name = retR chain"
| "cname_loop rec target_type (Suc n) chain current_name =
     bindR (rec current_name target_type) (\<lambda>records.
     if records \<noteq> [] then retR (chain @ records)
     else matchR (rec current_name RecordType.CNAME)
       (\<lambda>cname_records.
          case extend_chain cname_records chain current_name of
            (chain, current_name) \<Rightarrow> cname_loop rec target_type n chain current_name)
       (\<lambda>_. retR chain))"

definition follow_cname_chain ::
  "(DnsName \<Rightarrow> RecordType \<Rightarrow> (DnsRecord list, ResponseCode, 'c) comp) \<Rightarrow> DnsRecord list \<Rightarrow>
   RecordType \<Rightarrow> (DnsRecord list, ResponseCode, 'c) comp" where
  "follow_cname_chain rec cnames target_type =
     (case last_target cnames of
        None \<Rightarrow> failR ServerFailure
      | Some current_name \<Rightarrow> cname_loop rec target_type MAX_CNAME_CHAIN cnames current_name)"

section \<open>One response of the referral loop\<close>

definition response_records :: "DnsMessage \<Rightarrow> DnsRecord list" where
  "response_records m = answers m @ authorities m @ additional m"

definition validateR ::
  "resolver \<Rightarrow> DnsMessage \<Rightarrow> (ValidationResult, ResponseCode, 'c) comp" where
  "validateR X response =
     bindR (askR (w_unix (r_world X))) (\<lambda>clock.
     case validate_response (r_crypto X) clock (response_records response) of
       Ok v \<Rightarrow> retR v | _ \<Rightarrow> panicR)"

text \<open>The records of the answer section that have the type asked for, and the aliases.\<close>

definition of_type :: "RecordType \<Rightarrow> DnsRecord list \<Rightarrow> DnsRecord list" where
  "of_type record_type = filter (\<lambda>r. rr_type r = record_type)"

definition aliases :: "RecordType \<Rightarrow> DnsRecord list \<Rightarrow> DnsRecord list" where
  "aliases record_type = filter (\<lambda>r. rr_type r \<noteq> record_type \<and> rr_type r = RecordType.CNAME)"

definition process_answers ::
  "'c cache_ops \<Rightarrow> resolver \<Rightarrow> (DnsName \<Rightarrow> RecordType \<Rightarrow> (DnsRecord list, ResponseCode, 'c) comp) \<Rightarrow>
   DnsName \<Rightarrow> RecordType \<Rightarrow> DnsMessage \<Rightarrow> (DnsRecord list, ResponseCode, 'c) comp" where
  "process_answers L X rec name record_type response =
     (let result = of_type record_type (answers response);
          cnames = aliases record_type (answers response)
      in bindR (if r_dnssec X then validateR X response else retR Indeterminate) (\<lambda>validation.
         if r_dnssec X \<and> validation = Bogus then failR ServerFailure
         else if result \<noteq> [] then
           bindR (insertR L X name record_type result) (\<lambda>_. retR result)
         else if cnames \<noteq> [] then
           bindR (insertR L X name RecordType.CNAME cnames) (\<lambda>_.
           follow_cname_chain rec cnames record_type)
         else retR []))"

text \<open>The name servers of the authority section, each cached under its record's name.\<close>

fun collect_ns ::
  "'c cache_ops \<Rightarrow> resolver \<Rightarrow> DnsRecord list \<Rightarrow> DnsName list \<Rightarrow> (DnsName list, ResponseCode, 'c) comp" where
  "collect_ns L X [] new_ns_names = retR new_ns_names"
| "collect_ns L X (record # records) new_ns_names =
     (if rr_type record = RecordType.NS then
        (case rr_data record of
           RData.NS ns_name \<Rightarrow>
             bindR (insertR L X (rr_name record) RecordType.NS [record]) (\<lambda>_.
             collect_ns L X records (new_ns_names @ [ns_name]))
         | _ \<Rightarrow> collect_ns L X records new_ns_names)
      else collect_ns L X records new_ns_names)"

text \<open>The addresses of those name servers in the additional section, cached too.\<close>

fun collect_glue ::
  "'c cache_ops \<Rightarrow> resolver \<Rightarrow> DnsName list \<Rightarrow> DnsRecord list \<Rightarrow> SocketAddr list \<Rightarrow>
   (SocketAddr list, ResponseCode, 'c) comp" where
  "collect_glue L X new_ns_names [] glue_addrs = retR glue_addrs"
| "collect_glue L X new_ns_names (record # records) glue_addrs =
     (if rr_type record = RecordType.A then
        (case rr_data record of
           RData.A addr \<Rightarrow>
             if rr_name record \<in> set new_ns_names then
               bindR (insertR L X (rr_name record) RecordType.A [record]) (\<lambda>_.
               collect_glue L X new_ns_names records (glue_addrs @ [SocketAddr addr 53]))
             else collect_glue L X new_ns_names records glue_addrs
         | _ \<Rightarrow> collect_glue L X new_ns_names records glue_addrs)
      else collect_glue L X new_ns_names records glue_addrs)"

fun a_addrs :: "DnsRecord list \<Rightarrow> SocketAddr list" where
  "a_addrs [] = []"
| "a_addrs (r # rs) =
     (case rr_data r of RData.A addr \<Rightarrow> SocketAddr addr 53 # a_addrs rs | _ \<Rightarrow> a_addrs rs)"

text \<open>The addresses of the first name server that has any, from the cache or resolved.\<close>

fun resolve_ns ::
  "'c cache_ops \<Rightarrow> resolver \<Rightarrow> (DnsName \<Rightarrow> RecordType \<Rightarrow> (DnsRecord list, ResponseCode, 'c) comp) \<Rightarrow>
   DnsName list \<Rightarrow> (SocketAddr list, ResponseCode, 'c) comp" where
  "resolve_ns L X rec [] = retR []"
| "resolve_ns L X rec (ns_name # ns_names) =
     bindR (lookupR L X ns_name RecordType.A) (\<lambda>cached.
     matchR (case cached of Some rs \<Rightarrow> retR rs | None \<Rightarrow> rec ns_name RecordType.A)
       (\<lambda>rs. if a_addrs rs \<noteq> [] then retR (a_addrs rs) else resolve_ns L X rec ns_names)
       (\<lambda>_. resolve_ns L X rec ns_names))"

section \<open>The referral loop\<close>

fun referral_loop ::
  "'c cache_ops \<Rightarrow> resolver \<Rightarrow> (DnsName \<Rightarrow> RecordType \<Rightarrow> (DnsRecord list, ResponseCode, 'c) comp) \<Rightarrow>
   DnsName \<Rightarrow> RecordType \<Rightarrow> nat \<Rightarrow> SocketAddr list \<Rightarrow> DnsName list \<Rightarrow>
   (DnsRecord list, ResponseCode, 'c) comp" where
  "referral_loop L X rec name record_type 0 nameservers last_ns_names = outR"
| "referral_loop L X rec name record_type (Suc fuel) nameservers last_ns_names =
     bindR (query_nameservers X name record_type nameservers) (\<lambda>response.
     if response_code (header response) = NameError then failR NameError
     else if answers response \<noteq> [] then process_answers L X rec name record_type response
     else
       bindR (collect_ns L X (authorities response) []) (\<lambda>new_ns_names.
       bindR (collect_glue L X new_ns_names (additional response) []) (\<lambda>glue_addrs.
       if new_ns_names = [] then
         (if list_ex (\<lambda>r. rr_type r = RecordType.SOA) (authorities response) then retR []
          else failR ServerFailure)
       else if new_ns_names = last_ns_names then failR ServerFailure
       else if glue_addrs \<noteq> [] then
         referral_loop L X rec name record_type fuel glue_addrs new_ns_names
       else
         bindR (resolve_ns L X rec new_ns_names) (\<lambda>resolved_addrs.
         if resolved_addrs = [] then failR ServerFailure
         else referral_loop L X rec name record_type fuel resolved_addrs new_ns_names))))"

text \<open>The addresses of the root servers; \<open>None\<close> if one does not parse (\<open>unwrap\<close>).\<close>

definition root_servers :: "SocketAddr list option" where
  "root_servers =
     those (map (\<lambda>(_, ip). map_option (\<lambda>addr. SocketAddr addr 53) (parse_ipv4 (lit ip)))
       ROOT_SERVERS)"

function resolve_recursive ::
  "'c cache_ops \<Rightarrow> resolver \<Rightarrow> nat \<Rightarrow> nat \<Rightarrow> DnsName \<Rightarrow> RecordType \<Rightarrow>
   (DnsRecord list, ResponseCode, 'c) comp" where
  "resolve_recursive L X fuel depth name record_type =
     (if depth > MAX_RECURSION_DEPTH then failR ServerFailure
      else case root_servers of
        None \<Rightarrow> panicR
      | Some nameservers \<Rightarrow>
          referral_loop L X (\<lambda>n t. resolve_recursive L X fuel (depth + 1) n t)
            name record_type fuel nameservers [])"
  by pat_completeness auto
termination
  by (relation "measure (\<lambda>(L, X, fuel, depth, name, record_type). MAX_RECURSION_DEPTH + 1 - depth)")
    auto

declare resolve_recursive.simps [simp del]

section \<open>Resolving a question\<close>

datatype ZoneResult =
  Found "DnsRecord list" | FollowCname "DnsRecord list" | NoData | NotFound

definition zone_result :: "Zone list \<Rightarrow> DnsName \<Rightarrow> RecordType \<Rightarrow> ZoneResult" where
  "zone_result zones name record_type =
     (case ZoneStore_lookup zones name record_type of
        Some records \<Rightarrow> Found records
      | None \<Rightarrow>
          (case find_zone zones name of
             Some zone \<Rightarrow>
               if has_name zone name \<and> record_type \<noteq> RecordType.CNAME then
                 (case Zone_lookup zone name RecordType.CNAME of
                    Some cnames \<Rightarrow> FollowCname cnames
                  | None \<Rightarrow> NoData)
               else NotFound
           | None \<Rightarrow> NotFound))"

definition resolve ::
  "'c cache_ops \<Rightarrow> resolver \<Rightarrow> nat \<Rightarrow> DnsName \<Rightarrow> RecordType \<Rightarrow>
   (DnsRecord list, ResponseCode, 'c) comp" where
  "resolve L X fuel name record_type =
     (case zone_result (r_zones X) name record_type of
        Found records \<Rightarrow> retR records
      | FollowCname cnames \<Rightarrow>
          follow_cname_chain (resolve_recursive L X fuel 1) cnames record_type
      | NoData \<Rightarrow> retR []
      | NotFound \<Rightarrow>
          bindR (lookupR L X name record_type) (\<lambda>hit.
          case hit of
            Some records \<Rightarrow> retR records
          | None \<Rightarrow>
              bindR (if record_type \<noteq> RecordType.CNAME then lookupR L X name RecordType.CNAME
                     else retR None) (\<lambda>alias.
              case alias of
                Some cnames \<Rightarrow>
                  follow_cname_chain (resolve_recursive L X fuel 1) cnames record_type
              | None \<Rightarrow> resolve_recursive L X fuel 0 name record_type)))"

end
