(* ===== verification/Answering.thy ===== *)
theory Answering
  imports Resolver
begin

text \<open>
  The contract of the resolver, proved once over any cache that keeps the promises of
  \<open>dns_cache\<close> and any notion of a genuine record that holds of what the network delivers and of
  the zones, and that lowering a time to live preserves. Every operation of the resolver keeps
  the cache the result of a history of genuine operations, and answers with genuine records of
  the type asked for, or aliases.
\<close>

section \<open>What the network delivers\<close>

definition received :: "world \<Rightarrow> bytes \<Rightarrow> bool" where
  "received W b = ((\<exists>k q a d sender. w_recv W k q a = Datagram d sender \<and> b = take 4096 d) \<or>
     (\<exists>k q a n l rest rest'. read_exact 2 (w_stream W k q a) = Some (l, rest) \<and>
        read_exact n rest = Some (b, rest')))"

section \<open>Small facts on the operations\<close>

lemma askR_run [simp]: "askR w s = (Some (Ok (w (tick s))), s\<lparr>tick := tick s + 1\<rparr>)"
  by (simp add: askR_def)

lemma validateR_not_bogus:
  assumes "\<And>k j. w_unix (r_world X) k j < 0 \<Longrightarrow> p"
  shows "runs I p d E (\<lambda>v. v \<noteq> Bogus) (validateR X m)"
proof -
  have v: "runs I p d E (\<lambda>v. v \<noteq> Bogus) (case validate_response (r_crypto X) (w_unix (r_world X) k) rs of
      Ok v \<Rightarrow> retR v | _ \<Rightarrow> panicR)" for k rs
    using validate_response_outcome [where C = "r_crypto X" and clock = "w_unix (r_world X) k"
        and answers = rs] assms
    by (auto intro!: runs_retR runs_panicR split: res.splits)
  show ?thesis
    unfolding validateR_def by (rule runs_ask) (rule v)
qed

lemma ns_offsets_runs:
  "n \<noteq> 0 \<Longrightarrow> runs I p d E (\<lambda>os. length os = length is \<and> (\<forall>i \<in> set os. i < n)) (ns_offsets X n is)"
proof (induction "is")
  case (Cons i "is")
  show ?case
    unfolding ns_offsets.simps
    by (rule runs_ask, use Cons.prems in simp, rule runs_bindR [OF Cons.IH [OF Cons.prems]])
      (auto intro!: runs_retR simp: Cons.prems)
qed (simp add: runs_retR)

text \<open>The errors a resolution fails with.\<close>

definition fails :: "ResponseCode \<Rightarrow> bool" where
  "fails e = (e = ServerFailure \<or> e = NameError)"

lemma fails_simps [simp, intro]: "fails ServerFailure" "fails NameError"
  by (simp_all add: fails_def)

lemma root_servers_some: "\<exists>ns. root_servers = Some ns \<and> ns \<noteq> []"
proof -
  have "case root_servers of Some ns \<Rightarrow> \<not> List.null ns | None \<Rightarrow> False" by code_simp
  then show ?thesis by (auto simp: List.null_iff split: option.splits)
qed

lemma resolve_recursive_step:
  assumes "root_servers = Some ns" "depth \<le> MAX_RECURSION_DEPTH"
  shows "resolve_recursive L X fuel depth n t =
    referral_loop L X (resolve_recursive L X fuel (depth + 1)) n t fuel ns []"
  using assms(2) by (subst resolve_recursive.simps) (simp add: assms(1))

lemma last_target_Some: "last_target rs = Some n \<Longrightarrow> rs \<noteq> []"
  by (auto simp: last_target_def)

lemma extend_chain_set: "set (fst (extend_chain rs chain n)) \<subseteq> set chain \<union> set rs"
  by (induction rs arbitrary: chain n) (fastforce split: RData.splits)+

section \<open>The contract\<close>

locale answering = dns_cache L view cap
  for L :: "'c cache_ops" and view :: "'c \<Rightarrow> (CacheKey \<times> CacheEntry) list" and cap :: "'c \<Rightarrow> nat" +
  fixes X :: resolver
    and genuine :: "DnsRecord \<Rightarrow> bool"
    and may_panic :: bool
    and max_entries :: nat
  assumes genuine_ttl: "genuine r \<Longrightarrow> ttl \<le> rr_ttl r \<Longrightarrow> genuine (r\<lparr>rr_ttl := ttl\<rparr>)"
    and genuine_received: "received (r_world X) b \<Longrightarrow> DnsMessage_parse (r_unicode X) b = Ok m \<Longrightarrow>
        r \<in> set (response_records m) \<Longrightarrow> genuine r"
    and received_panic: "received (r_world X) b \<Longrightarrow> DnsMessage_parse (r_unicode X) b = Panic \<Longrightarrow>
        may_panic"
    and clock_panic: "r_dnssec X \<Longrightarrow> w_unix (r_world X) k j < 0 \<Longrightarrow> may_panic"
    and zone_genuine: "z \<in> set (r_zones X) \<Longrightarrow> Zone_lookup z n t = Some rs \<Longrightarrow> r \<in> set rs \<Longrightarrow>
        genuine r \<and> rr_type r = t"
    and others_genuine: "Insert n t rs now \<in> set (w_others (r_world X) k) \<Longrightarrow> r \<in> set rs \<Longrightarrow>
        genuine r \<and> rr_type r = t"
begin

text \<open>
  The cache is the result of its history, in which every insertion is of genuine records of the
  type they are inserted under. It then holds, under a key, only such records (\<open>clean\<close>).
\<close>

definition cached_ok :: "CacheKey \<times> CacheEntry \<Rightarrow> bool" where
  "cached_ok p = (case p of (CacheKey n t, e) \<Rightarrow>
     \<forall>r \<in> set (e_records e). genuine r \<and> rr_type r = t)"

definition clean :: "'c \<Rightarrow> bool" where
  "clean c = (cap c = (if max_entries = 0 then 10000 else max_entries) \<and> cache_inv c \<and>
     (\<forall>p \<in> set (view c). cached_ok p))"

definition typed :: "RecordType \<Rightarrow> DnsRecord list \<Rightarrow> bool" where
  "typed t rs = (\<forall>r \<in> set rs. genuine r \<and> rr_type r = t)"

definition answer :: "RecordType \<Rightarrow> DnsRecord list \<Rightarrow> bool" where
  "answer t rs = (\<forall>r \<in> set rs. genuine r \<and> (rr_type r = t \<or> rr_type r = RecordType.CNAME))"

definition heard :: "DnsMessage \<Rightarrow> bool" where
  "heard m = (\<forall>r \<in> set (response_records m). genuine r)"

definition sound_op :: "cache_op \<Rightarrow> bool" where
  "sound_op op = (case op of Insert n t rs now \<Rightarrow> typed t rs | _ \<Rightarrow> True)"

definition safe :: "'c \<Rightarrow> cache_op list \<Rightarrow> bool" where
  "safe c h = (c = cache_run L (DnsCache_new L max_entries) h \<and> list_all sound_op h)"

abbreviation keeps :: "('a \<Rightarrow> bool) \<Rightarrow> ('a, ResponseCode, 'c) comp \<Rightarrow> bool" where
  "keeps \<equiv> runs safe may_panic True fails"

lemma typed_answer: "typed t rs \<Longrightarrow> answer t rs"
  by (auto simp: typed_def answer_def)

lemma typed_cname_answer: "typed RecordType.CNAME rs \<Longrightarrow> answer t rs"
  by (auto simp: typed_def answer_def)

subsection \<open>The cache\<close>

lemma clean_new: "clean (DnsCache_new L max_entries)"
proof -
  have "view (DnsCache_new L max_entries) = []"
    using new_view [of max_entries] new_view [of 10000] by (simp add: DnsCache_new_def)
  then show ?thesis
    unfolding clean_def using cache_inv_new [of max_entries] cap_new [of max_entries] by simp
qed

lemma clean_lookup: "clean c \<Longrightarrow> clean (snd (DnsCache_lookup L c n t t1 t2))"
  using lookup_set [of c n t t1 t2] cap_step [of c "Lookup n t t1 t2"]
  by (auto simp: clean_def inv_lookup)

lemma clean_insert:
  assumes "clean c" "typed t rs"
  shows "clean (DnsCache_insert L c n t rs now)"
proof (cases rule: insert_cases [of c n t rs now])
  case 2
  let ?e = "\<lparr>e_records = rs, inserted_at = now, e_ttl = unat (min (min_ttl rs) 86400) * nanos\<rparr>"
  have "cached_ok (CacheKey n t, ?e)" using assms(2) by (simp add: cached_ok_def typed_def)
  then show ?thesis
    using assms(1) 2(3) inv_insert [of c n t rs now] put_set [of c "CacheKey n t" ?e]
      cap_step [of c "Insert n t rs now"]
    by (auto simp: clean_def)
qed (use assms in simp)

lemma clean_lookup_typed:
  assumes "clean c" "fst (DnsCache_lookup L c n t t1 t2) = Some rs"
  shows "typed t rs"
proof -
  obtain e where e: "map_of (view c) (CacheKey n t) = Some e"
    and rs: "rs = map (\<lambda>r. r\<lparr>rr_ttl := remaining_ttl e t2\<rparr>) (e_records e)"
    using assms(2) by (auto simp: lookup_value split: option.splits if_splits)
  have "(CacheKey n t, e) \<in> set (view c)" using e by (rule map_of_SomeD)
  then have ok: "entry_ok e" "\<forall>r \<in> set (e_records e). genuine r \<and> rr_type r = t"
    using assms(1) by (auto simp: clean_def cache_inv_def cached_ok_def)
  have "remaining_ttl e t2 \<le> rr_ttl r" if "r \<in> set (e_records e)" for r
    using remaining_ttl_le [OF ok(1) that] .
  then show ?thesis using ok(2) genuine_ttl by (auto simp: typed_def rs)
qed

lemma clean_step: "clean c \<Longrightarrow> sound_op op \<Longrightarrow> clean (cache_step L c op)"
proof (cases op)
  case Clear
  assume "clean c"
  then show ?thesis
    using inv_step [of c Clear] cap_step [of c Clear] Clear
    by (simp add: clean_def DnsCache_clear_def clear_view)
qed (simp_all add: clean_lookup clean_insert sound_op_def)

lemma clean_run: "clean c \<Longrightarrow> list_all sound_op ops \<Longrightarrow> clean (cache_run L c ops)"
  unfolding cache_run_def by (induction ops arbitrary: c) (simp_all add: clean_step)

lemma safe_clean: "safe c h \<Longrightarrow> clean c"
  unfolding safe_def using clean_run [OF clean_new] by blast

lemma safe_new: "safe (DnsCache_new L max_entries) []"
  by (simp add: safe_def cache_run_def)

lemma others_sound: "op \<in> set (w_others (r_world X) k) \<Longrightarrow> sound_op op"
  using others_genuine by (cases op) (auto simp: sound_op_def typed_def)

text \<open>An operation of this task, after those of the others.\<close>

lemma safe_step:
  assumes "safe (cache s) (history s)" "sound_op op"
  shows "safe (cache_step L (sharedR L X s) op) (recordR X op s)"
  using assms others_sound by (auto simp: safe_def sharedR_def recordR_def cache_run_def list_all_iff)

lemma clean_shared: "safe (cache s) (history s) \<Longrightarrow> clean (sharedR L X s)"
  using safe_step [of s "Insert DnsName_root RecordType.A [] 0"] safe_clean
  by (fastforce simp: sound_op_def typed_def DnsCache_insert_def)

lemma lookupR_keeps:
  "keeps (\<lambda>hit. \<forall>rs. hit = Some rs \<longrightarrow> typed t rs) (lookupR L X n t)"
  unfolding runs_def
proof (intro allI impI)
  fix s :: "'c rstate" assume "safe (cache s) (history s)"
  define t1 t2 where "t1 = w_instant (r_world X) (tick s)" and "t2 = w_instant (r_world X) (tick s + 1)"
  let ?s = "s\<lparr>tick := tick s + 2\<rparr>"
  have safe: "safe (cache ?s) (history ?s)" using \<open>safe (cache s) (history s)\<close> by simp
  obtain hit c where l: "DnsCache_lookup L (sharedR L X ?s) n t t1 t2 = (hit, c)" by fastforce
  have run: "lookupR L X n t s = (Some (Ok hit), ?s\<lparr>cache := c, history := recordR X (Lookup n t t1 t2) ?s\<rparr>)"
    using l by (simp add: lookupR_def matchR_def t1_def t2_def)
  have "safe c (recordR X (Lookup n t t1 t2) ?s)"
    using safe_step [OF safe, of "Lookup n t t1 t2"] l by (simp add: sound_op_def)
  moreover have "hit = Some rs \<Longrightarrow> typed t rs" for rs
    using clean_lookup_typed [OF clean_shared [OF safe], of n t t1 t2] l by simp
  ultimately show "safe (cache (snd (lookupR L X n t s))) (history (snd (lookupR L X n t s))) \<and>
      (case fst (lookupR L X n t s) of None \<Rightarrow> True | Some (Ok hit) \<Rightarrow> \<forall>rs. hit = Some rs \<longrightarrow> typed t rs
       | Some (Err e) \<Rightarrow> fails e | Some Panic \<Rightarrow> may_panic)"
    by (simp add: run)
qed

lemma insertR_keeps: "typed t rs \<Longrightarrow> keeps (\<lambda>_. True) (insertR L X n t rs)"
  unfolding insertR_def runs_def
  using safe_step [of "_\<lparr>tick := _\<rparr>" "Insert n t rs _"] by (auto simp: matchR_def sound_op_def)

subsection \<open>Asking a name server\<close>

lemma parsed_keeps:
  assumes "received (r_world X) b"
    and "\<And>m. heard m \<Longrightarrow> keeps Q (f m)" "\<And>e. keeps Q (h e)"
  shows "keeps Q (case DnsMessage_parse (r_unicode X) b of
    Ok m \<Rightarrow> f m | Err e \<Rightarrow> h e | Panic \<Rightarrow> panicR)"
proof (cases "DnsMessage_parse (r_unicode X) b")
  case (Ok m)
  then have "heard m" using genuine_received [OF assms(1)] by (simp add: heard_def)
  then show ?thesis using assms(2) Ok by simp
next
  case Panic
  then show ?thesis using received_panic [OF assms(1)] by (simp add: runs_panicR)
qed (use assms in simp)

lemma query_tcp_keeps: "keeps heard (query_tcp X n t server)"
proof -
  have reply: "keeps heard
      (case read_exact 2 stream of
         None \<Rightarrow> failR ServerFailure
       | Some (len_buf, stream) \<Rightarrow>
           (case (u16_at len_buf 0 :: (u16, DnsError) res) of
              Ok resp_len \<Rightarrow>
                (case read_exact (unat resp_len) stream of
                   None \<Rightarrow> failR ServerFailure
                 | Some (resp_buf, _) \<Rightarrow>
                     (case DnsMessage_parse (r_unicode X) resp_buf of
                        Ok m \<Rightarrow> retR m | Err _ \<Rightarrow> failR ServerFailure | Panic \<Rightarrow> panicR))
            | _ \<Rightarrow> panicR))"
    if stream: "stream = w_stream (r_world X) k q server" for k stream q
  proof (cases "read_exact 2 stream")
    case None
    then show ?thesis by (simp add: runs_failR)
  next
    case (Some p)
    obtain l rest where p: "p = (l, rest)" by fastforce
    have "length l = 2" using Some p by (auto simp: read_exact_def split: if_splits)
    then obtain x y where "l = [x, y]" by (auto simp: numeral_2_eq_2 length_Suc_conv)
    then have w: "(u16_at l 0 :: (u16, DnsError) res) = Ok (u16_from_be_bytes x y)"
      by (simp add: u16_at_def)
    define w where "w = u16_from_be_bytes x y"
    note w = w [folded w_def]
    show ?thesis
    proof (cases "read_exact (unat w) rest")
      case None
      then show ?thesis using Some p w by (simp add: runs_failR)
    next
      case (Some p')
      obtain b rest' where p': "p' = (b, rest')" by fastforce
      have "received (r_world X) b"
        using \<open>read_exact 2 stream = Some p\<close> Some p p' stream unfolding received_def by blast
      from parsed_keeps [OF this, of heard retR "\<lambda>_. failR ServerFailure"]
      show ?thesis using \<open>read_exact 2 stream = Some p\<close> Some p p' w
        by (simp add: runs_retR runs_failR)
    qed
  qed
  show ?thesis
    unfolding query_tcp_def Let_def
    by (intro runs_ask runs_if runs_failR fails_simps reply) (rule refl)
qed

lemma try_nameservers_keeps:
  "\<forall>i \<in> set os. i < length nss \<Longrightarrow> keeps heard (try_nameservers X n t nss i q os)"
proof (induction os)
  case Nil
  then show ?case by (simp add: runs_failR)
next
  case (Cons o' os)
  let ?next = "try_nameservers X n t nss i q os"
  have IH: "keeps heard ?next" using Cons by simp
  have dgram: "keeps heard
      (case DnsMessage_parse (r_unicode X) (take 4096 d) of
         Ok response \<Rightarrow>
           if h_id (header response) = i then
             if truncated (header response) then
               matchR (query_tcp X n t (nss ! o')) retR (\<lambda>_. retR response)
             else retR response
           else ?next
       | Err _ \<Rightarrow> ?next | Panic \<Rightarrow> panicR)" if "w_recv (r_world X) k q (nss ! o') = Datagram d sender" for d k sender
  proof (rule parsed_keeps)
    show "received (r_world X) (take 4096 d)" using that unfolding received_def by metis
  qed (auto intro!: runs_if runs_retR IH runs_matchR [OF query_tcp_keeps])
  show ?case
    using Cons.prems unfolding try_nameservers.simps Let_def
    by (auto intro!: runs_if runs_ask IH dgram split: recv.splits)
qed

lemma query_nameservers_keeps:
  "nss \<noteq> [] \<Longrightarrow> keeps heard (query_nameservers X n t nss)"
  unfolding query_nameservers_def Let_def
  by (intro runs_ask runs_if runs_failR fails_simps
      runs_bindR [OF ns_offsets_runs [where n = "length nss"]] try_nameservers_keeps) auto

subsection \<open>Resolving\<close>

definition deeper ::
  "(DnsName \<Rightarrow> RecordType \<Rightarrow> (DnsRecord list, ResponseCode, 'c) comp) \<Rightarrow> bool" where
  "deeper rec = (\<forall>n t. keeps (answer t) (rec n t))"

lemma cname_loop_keeps:
  assumes "deeper rec"
  shows "answer t chain \<Longrightarrow> keeps (answer t) (cname_loop rec t k chain current)"
proof (induction k arbitrary: chain current)
  case (Suc k)
  have next_step: "keeps (answer t) (case extend_chain rs chain current of
      (chain, current) \<Rightarrow> cname_loop rec t k chain current)" if rs: "answer RecordType.CNAME rs" for rs
  proof -
    obtain chain' current' where e: "extend_chain rs chain current = (chain', current')" by fastforce
    have "set chain' \<subseteq> set chain \<union> set rs" using extend_chain_set [of rs chain current] by (simp add: e)
    then have "answer t chain'" using Suc.prems rs unfolding answer_def by blast
    then show ?thesis by (simp add: e Suc.IH)
  qed
  have rec: "keeps (answer t') (rec n t')" for n t' using assms by (simp add: deeper_def)
  show ?case
    unfolding cname_loop.simps
  proof (rule runs_bindR [OF rec])
    fix rs assume "answer t rs"
    then have "answer t (chain @ rs)" using Suc.prems by (auto simp: answer_def)
    then show "keeps (answer t) (if rs \<noteq> [] then retR (chain @ rs)
        else matchR (rec current RecordType.CNAME) (\<lambda>cname_records.
          case extend_chain cname_records chain current of
            (chain, current_name) \<Rightarrow> cname_loop rec t k chain current_name) (\<lambda>_. retR chain))"
      by (intro runs_if runs_retR runs_matchR [OF rec] next_step Suc.prems)
  qed
qed (simp add: runs_retR)

lemma follow_keeps:
  "deeper rec \<Longrightarrow> answer t cnames \<Longrightarrow> keeps (answer t) (follow_cname_chain rec cnames t)"
  by (auto simp: follow_cname_chain_def intro: runs_failR cname_loop_keeps split: option.splits)

lemma heard_answers: "heard m \<Longrightarrow> r \<in> set (answers m) \<Longrightarrow> genuine r"
  by (simp add: heard_def response_records_def)

lemma process_answers_keeps:
  assumes "deeper rec" "heard m"
  shows "keeps (answer t) (process_answers L X rec n t m)"
proof -
  have r: "typed t (of_type t (answers m))"
    and c: "typed RecordType.CNAME (aliases t (answers m))"
    using heard_answers [OF assms(2)] by (auto simp: typed_def of_type_def aliases_def)
  have v: "keeps (\<lambda>_. True) (if r_dnssec X then validateR X m else retR Indeterminate)"
    by (auto intro!: runs_if runs_retR runs_conseq [OF validateR_not_bogus] intro: clock_panic)
  show ?thesis
    unfolding process_answers_def Let_def
    by (intro runs_bindR [OF v] runs_if runs_failR fails_simps runs_bindR [OF insertR_keeps [OF r]]
        runs_bindR [OF insertR_keeps [OF c]] runs_retR typed_answer [OF r]
        follow_keeps [OF assms(1)] typed_cname_answer [OF c]) (simp_all add: answer_def)
qed

lemma collect_ns_keeps:
  "\<forall>r \<in> set rs. genuine r \<Longrightarrow> keeps (\<lambda>_. True) (collect_ns L X rs acc)"
  by (induction rs arbitrary: acc)
    (auto intro!: runs_if runs_retR runs_bindR [OF insertR_keeps] simp: typed_def
      split: RData.splits)

lemma collect_glue_keeps:
  "\<forall>r \<in> set rs. genuine r \<Longrightarrow> keeps (\<lambda>_. True) (collect_glue L X ns rs acc)"
  by (induction rs arbitrary: acc)
    (auto intro!: runs_if runs_retR runs_bindR [OF insertR_keeps] simp: typed_def
      split: RData.splits)

lemma resolve_ns_keeps:
  "deeper rec \<Longrightarrow> keeps (\<lambda>_. True) (resolve_ns L X rec ns)"
proof (induction ns)
  case (Cons a ns)
  have "keeps (\<lambda>_. True) (case hit of Some rs \<Rightarrow> retR rs | None \<Rightarrow> rec a RecordType.A)" for hit
    using Cons.prems
    by (auto intro!: runs_retR simp: deeper_def intro: runs_conseq split: option.splits)
  then show ?case
    unfolding resolve_ns.simps
    by (intro runs_bindR [OF lookupR_keeps])
      (auto intro!: runs_matchR [where Q = "\<lambda>_. True"] runs_retR Cons.IH Cons.prems)
qed (simp add: runs_retR)

lemma referral_loop_keeps:
  assumes "deeper rec"
  shows "nss \<noteq> [] \<Longrightarrow> keeps (answer t) (referral_loop L X rec n t fuel nss prev)"
proof (induction fuel arbitrary: nss prev)
  case (Suc fuel)
  show ?case
    unfolding referral_loop.simps
  proof (rule runs_bindR [OF query_nameservers_keeps [OF Suc.prems]], goal_cases)
    case (1 m)
    then have au: "\<forall>r \<in> set (authorities m). genuine r" and ad: "\<forall>r \<in> set (additional m). genuine r"
      by (auto simp: heard_def response_records_def)
    show ?case
      by (intro runs_if runs_failR fails_simps process_answers_keeps [OF assms 1] Suc.IH
          runs_bindR [OF collect_ns_keeps [OF au]] runs_bindR [OF collect_glue_keeps [OF ad]]
          runs_bindR [OF resolve_ns_keeps [OF assms]] runs_retR)
        (simp_all add: answer_def)
  qed
qed (simp add: runs_outR)

lemma resolve_recursive_keeps: "keeps (answer t) (resolve_recursive L X fuel depth n t)"
proof (induction "MAX_RECURSION_DEPTH + 1 - depth" arbitrary: depth n t rule: less_induct)
  case less
  obtain ns where ns: "root_servers = Some ns" "ns \<noteq> []" using root_servers_some by blast
  show ?case
  proof (cases "depth > MAX_RECURSION_DEPTH")
    case True
    then show ?thesis by (subst resolve_recursive.simps) (simp add: runs_failR)
  next
    case False
    then have "deeper (resolve_recursive L X fuel (depth + 1))" using less by (simp add: deeper_def)
    from referral_loop_keeps [OF this ns(2)] False show ?thesis
      by (simp add: resolve_recursive_step [OF ns(1)])
  qed
qed

lemma deeper_recursive: "deeper (resolve_recursive L X fuel depth)"
  by (simp add: deeper_def resolve_recursive_keeps)

lemma zone_result_answer:
  "zone_result (r_zones X) n t = Found rs \<Longrightarrow> answer t rs"
  "zone_result (r_zones X) n t = FollowCname rs \<Longrightarrow> answer t rs"
  using zone_genuine find_zone_Some(1)
  by (fastforce simp: zone_result_def ZoneStore_lookup_def answer_def bind_eq_Some_conv
      split: option.splits if_splits)+

lemma resolve_keeps: "keeps (answer t) (resolve L X fuel n t)"
proof -
  have alias_step: "keeps (\<lambda>hit. \<forall>rs. hit = Some rs \<longrightarrow> answer t rs)
      (if t \<noteq> RecordType.CNAME then lookupR L X n RecordType.CNAME else retR None)"
    by (intro runs_if runs_conseq [OF lookupR_keeps] runs_retR) (auto simp: typed_cname_answer)
  have alias_keeps: "keeps (answer t)
      (bindR (if t \<noteq> RecordType.CNAME then lookupR L X n RecordType.CNAME else retR None)
         (\<lambda>alias. case alias of
            Some cnames \<Rightarrow> follow_cname_chain (resolve_recursive L X fuel 1) cnames t
          | None \<Rightarrow> resolve_recursive L X fuel 0 n t))"
    by (rule runs_bindR [OF alias_step])
      (auto intro: runs_failR follow_keeps [OF deeper_recursive] resolve_recursive_keeps
        split: option.splits)
  have cache_step: "keeps (answer t)
      (bindR (lookupR L X n t) (\<lambda>hit. case hit of Some records \<Rightarrow> retR records | None \<Rightarrow>
         bindR (if t \<noteq> RecordType.CNAME then lookupR L X n RecordType.CNAME else retR None)
           (\<lambda>alias. case alias of
              Some cnames \<Rightarrow> follow_cname_chain (resolve_recursive L X fuel 1) cnames t
            | None \<Rightarrow> resolve_recursive L X fuel 0 n t)))"
    by (rule runs_bindR [OF lookupR_keeps])
      (use alias_keeps in \<open>auto intro: runs_retR typed_answer split: option.split\<close>)
  show ?thesis
    using zone_result_answer [of n t] cache_step
    by (auto simp: resolve_def answer_def intro!: runs_retR follow_keeps deeper_recursive
        split: ZoneResult.splits)
qed

end

section \<open>Where records come from\<close>

text \<open>Zones whose record sets have the type of their key, as loaded zones do.\<close>

definition zone_typed :: "Zone \<Rightarrow> bool" where
  "zone_typed z = (rr_type (z_soa z) = RecordType.SOA \<and>
     (\<forall>r \<in> set (z_ns_records z). rr_type r = RecordType.NS) \<and>
     (\<forall>((_, t), rs) \<in> set (z_records z). \<forall>r \<in> set rs. rr_type r = t))"

lemma zone_typed_lookup: "zone_typed z \<Longrightarrow> Zone_lookup z n t = Some rs \<Longrightarrow> r \<in> set rs \<Longrightarrow> rr_type r = t"
  by (fastforce simp: zone_typed_def Zone_lookup_def split: if_splits dest: map_of_SomeD)

definition zone_record :: "resolver \<Rightarrow> DnsRecord \<Rightarrow> bool" where
  "zone_record X r =
     (\<exists>z \<in> set (r_zones X). \<exists>n t rs. Zone_lookup z n t = Some rs \<and> r \<in> set rs)"

definition delivered :: "resolver \<Rightarrow> DnsRecord \<Rightarrow> bool" where
  "delivered X r = (\<exists>b m. received (r_world X) b \<and> DnsMessage_parse (r_unicode X) b = Ok m \<and>
     r \<in> set (response_records m))"

text \<open>A record of a zone or of a received message, with its time to live or a lower one.\<close>

definition origin :: "resolver \<Rightarrow> DnsRecord \<Rightarrow> bool" where
  "origin X r = (\<exists>r0 ttl. (zone_record X r0 \<or> delivered X r0) \<and> ttl \<le> rr_ttl r0 \<and>
     r = r0\<lparr>rr_ttl := ttl\<rparr>)"

definition parser_panics :: "resolver \<Rightarrow> bool" where
  "parser_panics X =
     (\<exists>b. received (r_world X) b \<and> DnsMessage_parse (r_unicode X) b = Panic)"

text \<open>With DNSSEC on, some reading of the system clock lies before the epoch.\<close>

definition clock_panics :: "resolver \<Rightarrow> bool" where
  "clock_panics X = (r_dnssec X \<and> (\<exists>k j. w_unix (r_world X) k j < 0))"

lemma origin_refl: "zone_record X r \<or> delivered X r \<Longrightarrow> origin X r"
  unfolding origin_def by (metis DnsRecord.surjective DnsRecord.update_convs(4) order_refl)

text \<open>What the other tasks insert, under a key, are such records of the key's type.\<close>

definition op_genuine :: "resolver \<Rightarrow> cache_op \<Rightarrow> bool" where
  "op_genuine X op = (case op of
     Insert n t rs now \<Rightarrow> \<forall>r \<in> set rs. origin X r \<and> rr_type r = t | _ \<Rightarrow> True)"

definition sound_setting :: "resolver \<Rightarrow> bool" where
  "sound_setting X = (list_all zone_typed (r_zones X) \<and>
     (\<forall>k. list_all (op_genuine X) (w_others (r_world X) k)))"

lemma answering_any:
  assumes "lru_store L view cap" "sound_setting X"
  shows "answering L view cap X (origin X) (parser_panics X \<or> clock_panics X)"
proof (intro answering.intro dns_cache.intro assms(1) answering_axioms.intro)
  fix r :: DnsRecord and ttl :: u32
  assume "origin X r" "ttl \<le> rr_ttl r"
  moreover from \<open>origin X r\<close> obtain r0 t0 where "zone_record X r0 \<or> delivered X r0" "t0 \<le> rr_ttl r0"
    "r = r0\<lparr>rr_ttl := t0\<rparr>" unfolding origin_def by blast
  ultimately show "origin X (r\<lparr>rr_ttl := ttl\<rparr>)"
    unfolding origin_def by (intro exI [of _ r0] exI [of _ ttl]) auto
next
  fix z n t rs r
  assume "z \<in> set (r_zones X)" "Zone_lookup z n t = Some rs" "r \<in> set rs"
  then show "origin X r \<and> rr_type r = t"
    using assms(2) zone_typed_lookup [of z n t rs r] origin_refl [of X r]
    by (auto simp: zone_record_def list_all_iff sound_setting_def)
next
  fix n t rs now k r
  assume "Insert n t rs now \<in> set (w_others (r_world X) k)" "r \<in> set rs"
  then show "origin X r \<and> rr_type r = t"
    using assms(2) by (fastforce simp: sound_setting_def list_all_iff op_genuine_def)
qed (auto intro: origin_refl simp: delivered_def parser_panics_def clock_panics_def)

text \<open>The resolver over the reference cache, in any setting made sound.\<close>

definition tidy :: "resolver \<Rightarrow> resolver" where
  "tidy X = (let Y = X\<lparr>r_zones := filter zone_typed (r_zones X)\<rparr> in
     Y\<lparr>r_world := (r_world Y)\<lparr>w_others := \<lambda>k. filter (op_genuine Y) (w_others (r_world Y) k)\<rparr>\<rparr>)"

lemma op_genuine_network:
  "w_recv W = w_recv (r_world Y) \<Longrightarrow> w_stream W = w_stream (r_world Y) \<Longrightarrow>
   op_genuine (Y\<lparr>r_world := W\<rparr>) = op_genuine Y"
  by (rule ext) (auto simp: op_genuine_def origin_def zone_record_def delivered_def received_def
      split: cache_op.splits)

lemma sound_tidy: "sound_setting (tidy X)"
  by (simp add: sound_setting_def tidy_def Let_def op_genuine_network list_all_iff)

interpretation an: answering list_lru snd fst "tidy X" "origin (tidy X)"
    "parser_panics (tidy X) \<or> clock_panics (tidy X)" n for X n
  by (rule answering_any [OF ll.lru_store_axioms sound_tidy])

section \<open>Loaded zones are typed\<close>

lemma entry_push_typed:
  "\<forall>p \<in> set m. \<forall>x \<in> set (snd p). rr_type x = snd (fst p) \<Longrightarrow> rr_type r = snd k \<Longrightarrow>
   \<forall>p \<in> set (entry_push k r m). \<forall>x \<in> set (snd p). rr_type x = snd (fst p)"
  by (induction k r m rule: entry_push.induct) auto

lemma push_all_typed:
  "\<forall>p \<in> set (fst (foldl zone_push ([], []) rs)). \<forall>x \<in> set (snd p). rr_type x = snd (fst p)"
proof (induction rs rule: rev_induct)
  case (snoc r rs)
  have e: "fst (foldl zone_push ([], []) (rs @ [r])) =
      entry_push (rr_name r, rr_type r) r (fst (foldl zone_push ([], []) rs))"
    by (simp add: zone_push_def case_prod_unfold)
  show ?case unfolding e by (rule entry_push_typed [OF snoc.IH]) simp
qed simp

lemma Zone_from_config_typed:
  assumes "Zone_from_config U def = Ok z"
  shows "zone_typed z"
proof -
  from Zone_from_config_Ok [OF assms] obtain rs where
    z: "z_records z = fst (foldl zone_push ([], []) rs)"
      "z_ns_records z = snd (foldl zone_push ([], []) rs)" "rr_type (z_soa z) = RecordType.SOA"
    by metis
  have "\<forall>p \<in> set (z_records z). \<forall>x \<in> set (snd p). rr_type x = snd (fst p)"
    unfolding z(1) by (rule push_all_typed)
  then show ?thesis
    unfolding zone_typed_def z(2) push_all_ns using z(3) by fastforce
qed

end
