(* ===== verification/Server.thy ===== *)
theory Server
  imports Answering
begin

text \<open>
  \<open>src/server/mod.rs\<close>: the answer to one query, and the tasks that serve a UDP datagram and a
  TCP connection. The loops that spawn these tasks are in \<open>Service\<close>.
\<close>

section \<open>Answering a query\<close>

definition handle_query ::
  "'c cache_ops \<Rightarrow> resolver \<Rightarrow> nat \<Rightarrow> bytes \<Rightarrow> (bytes, DnsError, 'c) comp" where
  "handle_query L X fuel data =
     (case DnsMessage_parse (r_unicode X) data of
        Err e \<Rightarrow> failR e
      | Panic \<Rightarrow> panicR
      | Ok query \<Rightarrow>
          if questions query = [] then
            retR (DnsMessage_serialize (make_error_response query FormatError))
          else
            let question = hd (questions query);
                response = make_response query
            in matchR (resolve L X fuel (q_name question) (q_type question))
                 (\<lambda>records.
                    if records = [] then
                      retR (DnsMessage_serialize
                        (response\<lparr>header := (header response)\<lparr>response_code := NoError\<rparr>\<rparr>))
                    else
                      retR (DnsMessage_serialize
                        (response\<lparr>header := (header response)\<lparr>response_code := NoError\<rparr>,
                           answers := records\<rparr>)))
                 (\<lambda>code.
                    retR (DnsMessage_serialize
                      (response\<lparr>header := (header response)\<lparr>response_code := code\<rparr>\<rparr>))))"

section \<open>UDP\<close>

text \<open>The datagram sent for a response, if any: a response over 512 bytes is read back and sent
  without its records and with the TC bit.\<close>

definition udp_limit :: "unicode \<Rightarrow> bytes \<Rightarrow> (bytes option, 'e) res" where
  "udp_limit U response_bytes =
     (if length response_bytes > 512 then
        (case DnsMessage_parse U response_bytes of
           Ok response \<Rightarrow>
             Ok (Some (DnsMessage_serialize
               (response\<lparr>header := (header response)\<lparr>truncated := True\<rparr>, answers := [],
                  authorities := [], additional := []\<rparr>)))
         | Err _ \<Rightarrow> Ok None
         | Panic \<Rightarrow> Panic)
      else Ok (Some response_bytes))"

text \<open>The task of one datagram, which the buffer cuts to 4096 bytes.\<close>

definition udp_task ::
  "'c cache_ops \<Rightarrow> resolver \<Rightarrow> nat \<Rightarrow> bytes \<Rightarrow> (bytes option, unit, 'c) comp" where
  "udp_task L X fuel datagram =
     matchR (handle_query L X fuel (take 4096 datagram))
       (\<lambda>response_bytes s. (Some (udp_limit (r_unicode X) response_bytes), s))
       (\<lambda>_. retR None)"

section \<open>TCP\<close>

text \<open>The task of one connection: what it writes of the reply's length and bytes.\<close>

definition tcp_task ::
  "'c cache_ops \<Rightarrow> resolver \<Rightarrow> nat \<Rightarrow> bytes \<Rightarrow> (bytes list, unit, 'c) comp" where
  "tcp_task L X fuel stream =
     (case read_exact 2 stream of
        None \<Rightarrow> retR []
      | Some (len_buf, stream) \<Rightarrow>
          (case (u16_at len_buf 0 :: (u16, DnsError) res) of
             Ok w \<Rightarrow>
               let msg_len = unat w in
               if msg_len > 65535 then retR []
               else
                 (case read_exact msg_len stream of
                    None \<Rightarrow> retR []
                  | Some (msg_buf, _) \<Rightarrow>
                      matchR (handle_query L X fuel msg_buf)
                        (\<lambda>response_bytes.
                           let len = (of_nat (length response_bytes) :: u16)
                           in bindR (askR (\<lambda>t. w_write (r_world X) t (u16_to_be_bytes len)))
                                (\<lambda>wrote_len.
                                if \<not> wrote_len then retR []
                                else
                                  bindR (askR (\<lambda>t. w_write (r_world X) t response_bytes))
                                    (\<lambda>wrote.
                                    if wrote then retR [u16_to_be_bytes len, response_bytes]
                                    else retR [u16_to_be_bytes len])))
                        (\<lambda>_. retR []))
           | _ \<Rightarrow> panicR))"

section \<open>Lemmas on replies\<close>

text \<open>What a reply keeps of its query.\<close>

definition echoes :: "DnsMessage \<Rightarrow> DnsMessage \<Rightarrow> bool" where
  "echoes q r = (h_id (header r) = h_id (header q) \<and> questions r = questions q \<and>
     is_response (header r) \<and> recursion_available (header r) \<and>
     opcode (header r) = opcode (header q) \<and>
     recursion_desired (header r) = recursion_desired (header q))"

text \<open>The message a query is answered with, for a code and records.\<close>

definition answer_message :: "DnsMessage \<Rightarrow> ResponseCode \<Rightarrow> DnsRecord list \<Rightarrow> DnsMessage" where
  "answer_message q code rs =
     (make_response q)\<lparr>header := (header (make_response q))\<lparr>response_code := code\<rparr>, answers := rs\<rparr>"

lemma answer_message_head:
  "questions (answer_message q code rs) = questions q"
  "wf_header (header q) \<Longrightarrow> ResponseCode_from_u8 (ResponseCode_to_u8 code AND 0x0F) = code \<Longrightarrow>
   wf_header (header (answer_message q code rs))"
  by (simp_all add: answer_message_def make_response_def wf_header_def echoes_def)

lemma handle_query_Ok:
  assumes "handle_query L X fuel data s = (Some (Ok b), s')"
  obtains q code rs where "DnsMessage_parse (r_unicode X) data = Ok q"
    "b = DnsMessage_serialize (answer_message q code rs)"
    "questions q = [] \<and> code = FormatError \<and> rs = [] \<or>
     questions q \<noteq> [] \<and> (\<exists>x. resolve L X fuel (q_name (hd (questions q))) (q_type (hd (questions q))) s
       = (Some x, s') \<and> (x = Ok rs \<and> code = NoError \<or> x = Err code \<and> rs = []))"
proof -
  obtain q where q: "DnsMessage_parse (r_unicode X) data = Ok q"
    using assms by (cases "DnsMessage_parse (r_unicode X) data")
      (auto simp: handle_query_def failR_def panicR_def)
  show ?thesis
  proof (cases "questions q = []")
    case True
    then show ?thesis
      using assms q that [OF q, of FormatError "[]"]
      by (simp add: handle_query_def retR_def answer_message_def make_error_response_def
          make_response_def Let_def)
  next
    case False
    obtain x s1 where r: "resolve L X fuel (q_name (hd (questions q))) (q_type (hd (questions q))) s
        = (x, s1)" by fastforce
    obtain y where x: "x = Some y" "y \<noteq> Panic"
      using assms q False r
      by (cases x; cases "the x") (auto simp: handle_query_def Let_def matchR_def)
    show ?thesis
    proof (cases y)
      case (Ok rs)
      then show ?thesis
        using assms q False r x that [OF q, of NoError rs]
        by (cases "rs = []")
          (auto simp: handle_query_def Let_def matchR_def retR_def answer_message_def make_response_def)
    next
      case (Err e)
      then show ?thesis
        using assms q False r x that [OF q, of e "[]"]
        by (auto simp: handle_query_def Let_def matchR_def retR_def answer_message_def make_response_def)
    qed (use x in simp)
  qed
qed

text \<open>A reply that can be read has the head of its query, with the code, also when cut.\<close>

definition good_code :: "ResponseCode \<Rightarrow> bool" where
  "good_code code = (ResponseCode_from_u8 (ResponseCode_to_u8 code AND 0x0F) = code)"

lemma good_codes: "good_code NoError" "good_code FormatError" "good_code ServerFailure" "good_code NameError"
  by (simp_all add: good_code_def ResponseCode_from_u8_def)

lemma reply_read:
  assumes q: "wf_header (header q)" "list_all (wf_question U) (questions q)" "length (questions q) < 65536"
    and c: "good_code code"
    and p: "DnsMessage_parse U (DnsMessage_serialize (answer_message q code rs)) = Ok r"
  shows "echoes q r \<and> response_code (header r) = code \<and> wf_header (header r)"
proof -
  have w: "wf_header (header (answer_message q code rs))"
    using answer_message_head(2) [OF q(1)] c by (simp add: good_code_def)
  have "header r = header_with_counts (answer_message q code rs) \<and> questions r = questions q"
    using DnsMessage_head [OF w _ _ p] q by (simp add: answer_message_head)
  then show ?thesis
    using w by (simp add: echoes_def answer_message_def make_response_def header_with_counts_def wf_header_def)
qed

lemma cut_reply_read:
  assumes q: "list_all (wf_question U) (questions q)" "length (questions q) < 65536"
    and m: "echoes q m" "wf_header (header m)"
    and p: "DnsMessage_parse U (DnsMessage_serialize (m\<lparr>header := (header m)\<lparr>truncated := True\<rparr>,
      answers := [], authorities := [], additional := []\<rparr>)) = Ok r"
  shows "echoes q r \<and> response_code (header r) = response_code (header m)"
proof -
  let ?t = "m\<lparr>header := (header m)\<lparr>truncated := True\<rparr>, answers := [], authorities := [], additional := []\<rparr>"
  have "wf_header (header ?t)" using m(2) by (simp add: wf_header_def)
  from DnsMessage_head [OF this _ _ p] have "header r = header_with_counts ?t \<and> questions r = questions m"
    using q m(1) by (simp add: echoes_def)
  then show ?thesis using m(1) by (simp add: echoes_def header_with_counts_def)
qed

lemma udp_task_Ok:
  assumes "udp_task L X fuel d s = (Some (Ok (Some b)), s')"
  obtains b0 where "handle_query L X fuel (take 4096 d) s = (Some (Ok b0), s')"
    "length b0 \<le> 512" "b = b0"
  | b0 m where "handle_query L X fuel (take 4096 d) s = (Some (Ok b0), s')" "512 < length b0"
    "DnsMessage_parse (r_unicode X) b0 = Ok m"
    "b = DnsMessage_serialize (m\<lparr>header := (header m)\<lparr>truncated := True\<rparr>,
      answers := [], authorities := [], additional := []\<rparr>)"
proof -
  obtain x s1 where h: "handle_query L X fuel (take 4096 d) s = (x, s1)" by fastforce
  obtain b0 where b0: "x = Some (Ok b0)" "udp_limit (r_unicode X) b0 = (Ok (Some b) :: (bytes option, unit) res)"
    "s1 = s'"
    using assms h by (cases x; cases "the x") (auto simp: udp_task_def matchR_def retR_def)
  show ?thesis
  proof (cases "length b0 \<le> 512")
    case True
    then show ?thesis using b0 h that(1) by (simp add: udp_limit_def)
  next
    case False
    then show ?thesis
      using b0 h that(2) by (cases "DnsMessage_parse (r_unicode X) b0") (auto simp: udp_limit_def)
  qed
qed

section \<open>What the tasks do to the cache\<close>

context answering
begin

abbreviation served :: "('a \<Rightarrow> bool) \<Rightarrow> ('a, 'e, 'c) comp \<Rightarrow> bool" where
  "served \<equiv> runs safe True True (\<lambda>_. True)"

lemma handle_query_keeps: "served (\<lambda>_. True) (handle_query L X fuel data)"
  unfolding handle_query_def Let_def
  by (auto intro!: runs_failR runs_panicR runs_if runs_retR
      runs_matchR [OF runs_weaken [OF resolve_keeps]] split: res.splits)

lemma udp_task_keeps: "served (\<lambda>_. True) (udp_task L X fuel d)"
  unfolding udp_task_def
  by (rule runs_matchR [OF handle_query_keeps])
    (auto simp: runs_def retR_def split: option.splits res.splits)

lemma tcp_task_keeps: "served (\<lambda>_. True) (tcp_task L X fuel d)"
  unfolding tcp_task_def Let_def
  by (auto intro!: runs_panicR runs_if runs_retR runs_ask
      runs_matchR [OF handle_query_keeps] split: res.splits option.splits)

end

end
