(* ===== verification/Fuel.thy ===== *)
theory Fuel
  imports Answering
begin

text \<open>
  How much fuel the referral loop needs. More fuel never changes a result (\<open>approx\<close>); on a
  network that falls silent the loop ends (\<open>ends\<close>, \<open>progress\<close>); and there is a network on which
  no fuel is enough.
\<close>

section \<open>More fuel, same result\<close>

definition approx :: "('a, 'e, 'c) comp \<Rightarrow> ('a, 'e, 'c) comp \<Rightarrow> bool" where
  "approx m m' = (\<forall>s. fst (m s) \<noteq> None \<longrightarrow> m' s = m s)"

lemma approx_refl [simp, intro]: "approx m m"
  by (simp add: approx_def)

lemma approx_outR [simp, intro]: "approx outR m"
  by (simp add: approx_def outR_def)

lemma approx_matchR:
  assumes "approx m m'" "\<And>a. approx (f a) (f' a)" "\<And>e. approx (h e) (h' e)"
  shows "approx (matchR m f h) (matchR m' f' h')"
  unfolding approx_def
proof (intro allI impI)
  fix s assume r: "fst (matchR m f h s) \<noteq> None"
  obtain x s1 where m: "m s = (x, s1)" by fastforce
  then have "x \<noteq> None" using r by (cases x) (auto simp: matchR_def m)
  then have m': "m' s = (x, s1)" using assms(1) m by (simp add: approx_def)
  show "matchR m' f' h' s = matchR m f h s"
    using r assms(2,3) unfolding matchR_def m m' approx_def
    by (auto split: option.splits res.splits)
qed

lemma approx_bindR: "approx m m' \<Longrightarrow> (\<And>a. approx (f a) (f' a)) \<Longrightarrow> approx (bindR m f) (bindR m' f')"
  by (rule approx_matchR) auto

lemma approx_if: "approx m m' \<Longrightarrow> approx n n' \<Longrightarrow> approx (if b then m else n) (if b then m' else n')"
  by simp

lemma approx_ask_if: "approx m m' \<Longrightarrow> approx (if b then m else n) (if b then m' else n)"
  by simp

definition approx_rec ::
  "(DnsName \<Rightarrow> RecordType \<Rightarrow> (DnsRecord list, ResponseCode, 'c) comp) \<Rightarrow>
   (DnsName \<Rightarrow> RecordType \<Rightarrow> (DnsRecord list, ResponseCode, 'c) comp) \<Rightarrow> bool" where
  "approx_rec rec rec' = (\<forall>n t. approx (rec n t) (rec' n t))"

lemma cname_loop_approx:
  "approx_rec rec rec' \<Longrightarrow> approx (cname_loop rec t k chain n) (cname_loop rec' t k chain n)"
  by (induction k arbitrary: chain n)
    (auto simp: approx_rec_def intro!: approx_bindR approx_if approx_matchR split: prod.splits)

lemma follow_approx:
  "approx_rec rec rec' \<Longrightarrow> approx (follow_cname_chain rec cn t) (follow_cname_chain rec' cn t)"
  by (auto simp: follow_cname_chain_def cname_loop_approx split: option.splits)

lemma process_answers_approx:
  "approx_rec rec rec' \<Longrightarrow>
   approx (process_answers L X rec n t m) (process_answers L X rec' n t m)"
  unfolding process_answers_def Let_def by (intro approx_bindR approx_if approx_refl follow_approx)

lemma resolve_ns_approx:
  "approx_rec rec rec' \<Longrightarrow> approx (resolve_ns L X rec ns) (resolve_ns L X rec' ns)"
  by (induction ns)
    (auto simp: approx_rec_def intro!: approx_bindR approx_if approx_matchR split: option.splits)

lemma referral_loop_approx:
  "approx_rec rec rec' \<Longrightarrow> fuel \<le> fuel' \<Longrightarrow>
   approx (referral_loop L X rec n t fuel nss prev) (referral_loop L X rec' n t fuel' nss prev)"
proof (induction fuel arbitrary: fuel' nss prev)
  case (Suc fuel)
  then obtain k where k: "fuel' = Suc k" "fuel \<le> k" by (cases fuel') auto
  show ?case
    unfolding k(1) referral_loop.simps
    by (intro approx_bindR approx_if approx_refl process_answers_approx Suc.prems(1)
        resolve_ns_approx Suc.IH k(2))
qed simp

lemma resolve_recursive_approx:
  "fuel \<le> fuel' \<Longrightarrow>
   approx (resolve_recursive L X fuel depth n t) (resolve_recursive L X fuel' depth n t)"
proof (induction "MAX_RECURSION_DEPTH + 1 - depth" arbitrary: depth n t rule: less_induct)
  case less
  show ?case
  proof (cases "depth > MAX_RECURSION_DEPTH")
    case True
    then show ?thesis by (simp add: resolve_recursive.simps)
  next
    case False
    then have rec: "approx_rec (resolve_recursive L X fuel (depth + 1))
        (resolve_recursive L X fuel' (depth + 1))"
      using less by (simp add: approx_rec_def)
    obtain ns where ns: "root_servers = Some ns" using root_servers_some by blast
    have "depth \<le> MAX_RECURSION_DEPTH" using False by simp
    note step = resolve_recursive_step [OF ns this]
    show ?thesis
      unfolding step [of L X fuel] step [of L X fuel']
      by (rule referral_loop_approx [OF rec less.prems])
  qed
qed

lemma resolve_approx:
  assumes "fuel \<le> fuel'"
  shows "approx (resolve L X fuel n t) (resolve L X fuel' n t)"
proof -
  have r: "approx_rec (resolve_recursive L X fuel d) (resolve_recursive L X fuel' d)" for d
    by (simp add: approx_rec_def resolve_recursive_approx [OF assms])
  show ?thesis
    unfolding resolve_def
    by (auto intro!: approx_bindR follow_approx r resolve_recursive_approx [OF assms]
        split: ZoneResult.splits option.splits)
qed

section \<open>A network that falls silent\<close>

definition silent_from :: "nat \<Rightarrow> world \<Rightarrow> bool" where
  "silent_from T W = (\<forall>k \<ge> T. \<forall>q a d sender. w_recv W k q a \<noteq> Datagram d sender)"

text \<open>From a position not before \<open>b\<close>, the computation returns and does not go back before \<open>b\<close>.\<close>

definition ends :: "nat \<Rightarrow> ('a, 'e, 'c) comp \<Rightarrow> bool" where
  "ends b m = (\<forall>s. b \<le> tick s \<longrightarrow> fst (m s) \<noteq> None \<and> b \<le> tick (snd (m s)))"

text \<open>Moreover, a value is returned only before \<open>T\<close>, and at a later position.\<close>

definition has_value :: "('a, 'e) res option \<Rightarrow> bool" where
  "has_value x = (\<exists>a. x = Some (Ok a))"

lemma has_value_simps [simp]: "has_value (Some (Ok a))" "\<not> has_value (Some (Err e))"
    "\<not> has_value (Some Panic)" "\<not> has_value None"
  by (simp_all add: has_value_def)

definition progressed :: "nat \<Rightarrow> nat \<Rightarrow> ('a, 'e) res option \<times> 'c rstate \<Rightarrow> bool" where
  "progressed T b p = (fst p \<noteq> None \<and> b \<le> tick (snd p) \<and>
     (has_value (fst p) \<longrightarrow> b < T \<and> b < tick (snd p)))"

definition progress :: "nat \<Rightarrow> nat \<Rightarrow> ('a, 'e, 'c) comp \<Rightarrow> bool" where
  "progress T b m = (\<forall>s. b \<le> tick s \<longrightarrow> progressed T b (m s))"

lemma progressD: "progress T b m \<Longrightarrow> b \<le> tick s \<Longrightarrow> progressed T b (m s)"
  by (simp add: progress_def)

lemma ends_base [simp, intro]: "ends b (retR a)" "ends b (failR e)" "ends b panicR"
  by (simp_all add: ends_def retR_def failR_def panicR_def)

lemma ends_ask: "(\<And>k. ends b (f (w k))) \<Longrightarrow> ends b (matchR (askR w) f h)"
  by (simp add: ends_def matchR_def)

lemma matchR_Ok: "m s = (Some (Ok a), s1) \<Longrightarrow> matchR m f h s = f a s1"
  by (simp add: matchR_def)

lemma matchR_Err: "m s = (Some (Err e), s1) \<Longrightarrow> matchR m f h s = h e s1"
  by (simp add: matchR_def)

lemma ends_matchR:
  assumes "ends b m" "\<And>a. ends b (f a)" "\<And>e. ends b (h e)"
  shows "ends b (matchR m f h)"
  using assms unfolding ends_def matchR_def
  by (auto split: prod.splits option.splits res.splits; metis fst_conv snd_conv)

lemma ends_if: "(c \<Longrightarrow> ends b m) \<Longrightarrow> (\<not> c \<Longrightarrow> ends b n) \<Longrightarrow> ends b (if c then m else n)"
  by simp

lemma progress_ends: "progress T b m \<Longrightarrow> ends b m"
  by (simp add: progress_def progressed_def ends_def)

lemma progress_base [simp, intro]: "progress T b (failR e)" "progress T b panicR"
  by (simp_all add: progress_def progressed_def failR_def panicR_def)

lemma progress_if:
  "(c \<Longrightarrow> progress T b m) \<Longrightarrow> (\<not> c \<Longrightarrow> progress T b n) \<Longrightarrow> progress T b (if c then m else n)"
  by simp

lemma progress_ask: "(\<And>k. progress T b (f (w k))) \<Longrightarrow> progress T b (matchR (askR w) f h)"
  by (simp add: progress_def matchR_def)

lemma progress_bind:
  assumes "ends b m" "\<And>a. progress T b (f a)"
  shows "progress T b (bindR m f)"
  unfolding progress_def
proof (intro allI impI)
  fix s :: "'a rstate" assume s: "b \<le> tick s"
  obtain x s1 where m: "m s = (x, s1)" by fastforce
  then have "x \<noteq> None" "b \<le> tick s1" using assms(1) s by (auto simp: ends_def)
  then show "progressed T b (bindR m f s)"
    using progressD [OF assms(2)] unfolding matchR_def m failR_def
    by (cases x) (auto simp: progressed_def split: res.splits)
qed

lemma progress_recv:
  assumes "silent_from T W" "\<And>d sender. b < T \<Longrightarrow> ends (b + 1) (f (Datagram d sender))"
    "progress T b (f RecvError)" "progress T b (f Timeout)"
  shows "progress T b (matchR (askR (\<lambda>k. w_recv W k q a)) f h)"
  unfolding progress_def
proof (intro allI impI)
  fix s :: "'a rstate" assume s: "b \<le> tick s"
  let ?s = "s\<lparr>tick := tick s + 1\<rparr>" and ?g = "w_recv W (tick s) q a"
  have "progressed T b (f ?g ?s)"
  proof (cases ?g)
    case (Datagram d sender)
    then have "tick s < T" using assms(1) by (metis not_le silent_from_def)
    then have "b < T" using s by simp
    then have "fst (f (Datagram d sender) ?s) \<noteq> None \<and> b + 1 \<le> tick (snd (f (Datagram d sender) ?s))"
      using assms(2) [of d sender] s by (simp add: ends_def)
    then show ?thesis using \<open>b < T\<close> Datagram by (simp add: progressed_def)
  qed (use progressD [OF assms(3), of ?s] progressD [OF assms(4), of ?s] s in simp_all)
  then show "progressed T b (matchR (askR (\<lambda>k. w_recv W k q a)) f h s)"
    by (simp add: matchR_def)
qed

text \<open>What follows an answer starts at a later position, which must lie before \<open>T\<close>.\<close>

lemma ends_progress:
  assumes "progress T b m" "\<And>a. b < T \<Longrightarrow> ends (b + 1) (f a)"
  shows "ends b (bindR m f)"
  unfolding ends_def
proof (intro allI impI)
  fix s :: "'a rstate" assume s: "b \<le> tick s"
  obtain x s1 where m: "m s = (x, s1)" by fastforce
  have p: "progressed T b (x, s1)" using progressD [OF assms(1) s] by (simp add: m)
  show "fst (bindR m f s) \<noteq> None \<and> b \<le> tick (snd (bindR m f s))"
  proof (cases "has_value x")
    case True
    then obtain a where x: "x = Some (Ok a)" by (auto simp: has_value_def)
    then have "b < T" "b + 1 \<le> tick s1" using p by (simp_all add: progressed_def)
    then show ?thesis using assms(2) [of a] x m by (auto simp: matchR_Ok ends_def)
  next
    case False
    then show ?thesis
      using p m by (auto simp: progressed_def matchR_def failR_def split: option.splits res.splits)
  qed
qed

lemma ends_lookupR: "ends b (lookupR L X n t)"
  unfolding lookupR_def by (intro ends_ask) (auto simp: ends_def split: prod.splits)

lemma ends_insertR: "ends b (insertR L X n t rs)"
  unfolding insertR_def by (intro ends_ask) (auto simp: ends_def)

lemma ends_ns_offsets: "ends b (ns_offsets X n is)"
  by (induction "is") (auto intro!: ends_ask ends_if ends_matchR)

lemma ends_query_tcp: "ends b (query_tcp X n t server)"
  unfolding query_tcp_def Let_def
  by (intro ends_ask ends_if ends_base) (auto split: option.splits res.splits)

lemma progress_try_nameservers:
  "silent_from T (r_world X) \<Longrightarrow> progress T b
     (try_nameservers X n t nss i q os :: (DnsMessage, ResponseCode, 'c) comp)"
proof (induction os arbitrary: b)
  case (Cons o' os)
  note IH = Cons.IH [OF Cons.prems]
  have E: "ends b (try_nameservers X n t nss i q os :: (DnsMessage, ResponseCode, 'c) comp)" for b
    by (rule progress_ends [OF IH])
  show ?case
    unfolding try_nameservers.simps Let_def
    by (rule progress_if progress_base IH progress_recv [OF Cons.prems] progress_ask | simp only: recv.case if_True)+
      (auto simp: E IH intro!: ends_if ends_matchR ends_query_tcp split: res.splits)
qed simp

lemma progress_query_nameservers:
  "silent_from T (r_world X) \<Longrightarrow> progress T b (query_nameservers X n t nss)"
  unfolding query_nameservers_def Let_def
  by (intro progress_ask progress_if progress_base progress_bind ends_ns_offsets
      progress_try_nameservers)

definition ends_rec ::
  "(DnsName \<Rightarrow> RecordType \<Rightarrow> (DnsRecord list, ResponseCode, 'c) comp) \<Rightarrow> bool" where
  "ends_rec rec = (\<forall>b n t. ends b (rec n t))"

lemma ends_follow: "ends_rec rec \<Longrightarrow> ends b (follow_cname_chain rec cn t)"
proof -
  assume rec: "ends_rec rec"
  have "ends b (cname_loop rec t k chain n)" for k chain n
    by (induction k arbitrary: chain n)
      (use rec in \<open>auto simp: ends_rec_def intro!: ends_matchR split: prod.splits\<close>)
  then show ?thesis by (auto simp: follow_cname_chain_def split: option.splits)
qed

lemma ends_process_answers: "ends_rec rec \<Longrightarrow> ends b (process_answers L X rec n t m)"
  unfolding process_answers_def Let_def validateR_def
  by (intro ends_matchR ends_if ends_ask ends_insertR ends_follow)
    (auto split: res.splits)

lemma ends_collect: "ends b (collect_ns L X rs acc)" "ends b (collect_glue L X ns rs acc')"
  by (induction rs arbitrary: acc acc')
    (auto intro!: ends_if ends_matchR ends_insertR split: RData.splits)

lemma ends_resolve_ns: "ends_rec rec \<Longrightarrow> ends b (resolve_ns L X rec ns)"
  by (induction ns)
    (auto simp: ends_rec_def intro!: ends_matchR ends_lookupR split: option.splits)

lemma ends_referral_loop:
  assumes "ends_rec rec" "silent_from T (r_world X)"
  shows "T - b < fuel \<Longrightarrow> ends b (referral_loop L X rec n t fuel nss prev)"
proof (induction fuel arbitrary: b nss prev)
  case (Suc fuel)
  have loop: "b < T \<Longrightarrow> ends (b + 1) (referral_loop L X rec n t fuel nss' prev')" for nss' prev'
    using Suc by simp
  show ?case
    unfolding referral_loop.simps
    by (rule ends_progress [OF progress_query_nameservers [OF assms(2)]])
      (intro ends_if ends_matchR ends_base ends_process_answers ends_collect ends_resolve_ns
        assms(1) loop; assumption)
qed simp

lemma ends_resolve_recursive:
  assumes "silent_from T (r_world X)" "T < fuel"
  shows "ends b (resolve_recursive L X fuel depth n t)"
proof (induction "MAX_RECURSION_DEPTH + 1 - depth" arbitrary: b depth n t rule: less_induct)
  case less
  show ?case
  proof (cases "depth > MAX_RECURSION_DEPTH")
    case True
    then show ?thesis by (simp add: resolve_recursive.simps)
  next
    case False
    then have rec: "ends_rec (resolve_recursive L X fuel (depth + 1))"
      using less by (simp add: ends_rec_def)
    obtain ns where ns: "root_servers = Some ns" using root_servers_some by blast
    have "depth \<le> MAX_RECURSION_DEPTH" using False by simp
    note step = resolve_recursive_step [OF ns this]
    show ?thesis
      unfolding step using ends_referral_loop [OF rec assms(1)] assms(2) by simp
  qed
qed

lemma ends_resolve:
  assumes "silent_from T (r_world X)" "T < fuel"
  shows "ends b (resolve L X fuel n t)"
proof -
  have r: "ends_rec (resolve_recursive L X fuel d)" for d
    by (simp add: ends_rec_def ends_resolve_recursive [OF assms])
  show ?thesis
    unfolding resolve_def
    by (auto intro!: ends_matchR ends_lookupR ends_follow r ends_resolve_recursive [OF assms]
        split: ZoneResult.splits option.splits)
qed

section \<open>A network on which no fuel is enough\<close>

text \<open>
  Two name servers that refer to each other under two names: each referral differs from the one
  before it, which is all the loop looks at.
\<close>

definition host :: "char \<Rightarrow> DnsName" where
  "host c = DnsName [lit [c]]"

definition referral_message :: "DnsName \<Rightarrow> Ipv4Addr \<Rightarrow> DnsMessage" where
  "referral_message ns addr =
     \<lparr>header = (DnsHeader_new_query 0)\<lparr>is_response := True\<rparr>, questions = [], answers = [],
      authorities = [DnsRecord_new DnsName_root RecordType.NS 60 (RData.NS ns)],
      additional = [DnsRecord_new ns RecordType.A 60 (RData.A addr)]\<rparr>"

definition server_a :: Ipv4Addr where
  "server_a = Ipv4Addr 10 0 0 1"

definition server_b :: Ipv4Addr where
  "server_b = Ipv4Addr 10 0 0 2"

definition refers_to :: "SocketAddr \<Rightarrow> DnsName \<times> Ipv4Addr" where
  "refers_to a = (if a = SocketAddr server_a 53 then (host CHR ''b'', server_b)
     else (host CHR ''a'', server_a))"

definition loop_reply :: "SocketAddr \<Rightarrow> DnsMessage" where
  "loop_reply a = referral_message (fst (refers_to a)) (snd (refers_to a))"

definition loop_world :: world where
  "loop_world =
     \<lparr>w_instant = (\<lambda>_. 0), w_unix = (\<lambda>_ _. 0), w_random16 = (\<lambda>_. 0), w_random64 = (\<lambda>_. 0),
      w_bind = (\<lambda>_. True), w_send = (\<lambda>_ _ _. True),
      w_recv = (\<lambda>_ _ a. Datagram (DnsMessage_serialize (loop_reply a)) a),
      w_connect = (\<lambda>_ _. False), w_write = (\<lambda>_ _. False), w_stream = (\<lambda>_ _ _. []), w_others = (\<lambda>_. [])\<rparr>"

lemma wf_host: "is_ascii [of_char c] \<Longrightarrow> ascii_lower (of_char c) = of_char c \<Longrightarrow> wf_name U (host c)"
  by (simp add: host_def wf_name_def wf_label_def lit_def to_lowercase_def ascii_valid_utf8)

lemma host_names: "wf_name U (host CHR ''a'')" "wf_name U (host CHR ''b'')"
  by (simp_all add: wf_host is_ascii_def ascii_lower_def)

lemma wf_referral: "wf_name U ns \<Longrightarrow> length (DnsName_to_wire ns) < 65536 \<Longrightarrow>
    wf_message U (referral_message ns addr)"
  by (cases addr)
    (simp add: wf_message_def referral_message_def wf_header_def DnsHeader_new_query_def wf_record_def
      DnsRecord_new_def canonical_type_def canonical_class_def RecordType_from_u16_def
      RecordClass_from_u16_def OpCode_from_u8_def ResponseCode_from_u8_def wf_name_def
      DnsName_root_def)

lemma referral_length: "length (DnsMessage_serialize (referral_message (host c) addr)) \<le> 4096"
  by (cases addr) (simp add: DnsMessage_serialize_def referral_message_def DnsRecord_serialize_def
      DnsRecord_new_def Let_def DnsName_to_wire_def host_def lit_def DnsName_root_def)

lemma refers_to_host:
  obtains c where "fst (refers_to a) = host c" "c = CHR ''a'' \<or> c = CHR ''b''"
  by (cases "a = SocketAddr server_a 53") (auto simp: refers_to_def)

lemma loop_reply_parsed:
  "DnsMessage_parse U (take 4096 (DnsMessage_serialize (loop_reply a)))
    = Ok ((loop_reply a)\<lparr>header := header_with_counts (loop_reply a)\<rparr>)"
proof -
  obtain c where m: "loop_reply a = referral_message (host c) (snd (refers_to a))"
    "c = CHR ''a'' \<or> c = CHR ''b''"
    using refers_to_host [of a] unfolding loop_reply_def by metis
  have "wf_message U (loop_reply a)" unfolding m(1)
    by (rule wf_referral) (use m(2) host_names in \<open>auto simp: DnsName_to_wire_def host_def lit_def\<close>)
  moreover have "take 4096 (DnsMessage_serialize (loop_reply a)) = DnsMessage_serialize (loop_reply a)"
    using referral_length m(1) by simp
  ultimately show ?thesis
    using DnsMessage_read_back [of U "loop_reply a" "[]"] by (simp add: DnsMessage_parse_def)
qed

lemma loop_reply_fields:
  "answers (loop_reply a) = []"
  "authorities (loop_reply a) =
     [DnsRecord_new DnsName_root RecordType.NS 60 (RData.NS (fst (refers_to a)))]"
  "additional (loop_reply a) =
     [DnsRecord_new (fst (refers_to a)) RecordType.A 60 (RData.A (snd (refers_to a)))]"
  "h_id (header_with_counts (loop_reply a)) = 0"
  "\<not> truncated (header_with_counts (loop_reply a))"
  "response_code (header_with_counts (loop_reply a)) = NoError"
  by (simp_all add: loop_reply_def referral_message_def header_with_counts_def
      DnsHeader_new_query_def)

lemma loop_world_fields:
  "w_bind loop_world k" "w_send loop_world k q a" "w_random16 loop_world k = 0"
  "w_random64 loop_world k = 0"
  "w_recv loop_world k q a = Datagram (DnsMessage_serialize (loop_reply a)) a"
  by (simp_all add: loop_world_def)

lemma loop_offsets:
  "k \<noteq> 0 \<Longrightarrow> r_world X = loop_world \<Longrightarrow> ns_offsets X k is s =
     (Some (Ok (map (\<lambda>i. unat (of_nat i :: u64) mod k) is)), s\<lparr>tick := tick s + length is\<rparr>)"
  by (induction "is" arbitrary: s) (simp_all add: retR_def matchR_def loop_world_def)

lemma loop_query:
  assumes "r_world X = loop_world"
  shows "\<exists>s'. query_nameservers X n t (a # as) s =
    (Some (Ok ((loop_reply a)\<lparr>header := header_with_counts (loop_reply a)\<rparr>)), s')"
proof -
  have u: "[0..<MAX_RETRIES] = [0, 1, 2]" by (simp add: MAX_RETRIES_def upt_rec)
  show ?thesis
    by (simp add: query_nameservers_def matchR_def loop_offsets assms u Let_def loop_world_fields
        loop_reply_parsed loop_reply_fields retR_def)
qed

lemma insertR_run: "\<exists>s'. insertR L X n t rs s = (Some (Ok ()), s')"
  by (simp add: insertR_def matchR_def)

text \<open>Each round asks the server the last referral named, and is referred on.\<close>

lemma loop_forever:
  assumes "r_world X = loop_world"
  shows "prev \<noteq> [fst (refers_to a)] \<Longrightarrow>
    fst (referral_loop L X rec n t fuel (a # as) prev s) = None"
proof (induction fuel arbitrary: a as prev s)
  case (Suc fuel)
  let ?ns = "fst (refers_to a)" and ?addr = "snd (refers_to a)"
  obtain s1 where q: "query_nameservers X n t (a # as) s =
      (Some (Ok ((loop_reply a)\<lparr>header := header_with_counts (loop_reply a)\<rparr>)), s1)"
    using loop_query [OF assms] by blast
  obtain s2 where i1: "insertR L X DnsName_root RecordType.NS
      [DnsRecord_new DnsName_root RecordType.NS 60 (RData.NS ?ns)] s1 =
      (Some (Ok ()) :: (unit, ResponseCode) res option, s2)"
    using insertR_run by blast
  obtain s3 where i2: "insertR L X ?ns RecordType.A
      [DnsRecord_new ?ns RecordType.A 60 (RData.A ?addr)] s2 =
      (Some (Ok ()) :: (unit, ResponseCode) res option, s3)"
    using insertR_run by blast
  have "referral_loop L X rec n t (Suc fuel) (a # as) prev s
      = referral_loop L X rec n t fuel [SocketAddr ?addr 53] [?ns] s3"
    using Suc.prems
    by (simp add: matchR_def q loop_reply_fields i1 [unfolded DnsRecord_new_def]
        i2 [unfolded DnsRecord_new_def] DnsRecord_new_def retR_def)
  moreover have "[?ns] \<noteq> [fst (refers_to (SocketAddr ?addr 53))]"
    by (auto simp: refers_to_def server_a_def server_b_def host_def lit_def)
  ultimately show ?case using Suc.IH by simp
qed (simp add: outR_def)

text \<open>A resolver without zones on that network.\<close>

definition loop_resolver :: resolver where
  "loop_resolver =
     \<lparr>r_unicode = \<lparr>u_lower = id, u_upper = id\<rparr>, r_zones = [],
      r_crypto = \<lparr>rsa_verify = (\<lambda>_ _ _ _ _. False), key_verify = (\<lambda>_ _ _ _. False),
        sha1_digest = id, sha256_digest = id, sha384_digest = id\<rparr>,
      r_dnssec = False, r_world = loop_world\<rparr>"

end
