(* ===== verification/Doh.thy ===== *)
theory Doh
  imports Server Fuel
begin

text \<open>
  \<open>src/doh/mod.rs\<close>: DNS over HTTPS. An HTTP request is what \<open>hyper\<close> hands to the handler; the
  body is \<open>None\<close> when it cannot be collected. The base64 decoder of the \<open>base64\<close> crate is a
  parameter, as are the TLS and HTTP protocols of \<open>rustls\<close> and \<open>hyper\<close> and the reader of PEM files
  (the record \<open>web\<close>).
\<close>

datatype http_method = GET | POST | OtherMethod

record http_request =
  http_method_of :: http_method
  path :: rstr
  uri_query :: "rstr option"
  content_type :: "rstr option"
  body :: "bytes option"

record http_response =
  status :: nat
  resp_headers :: "(rstr \<times> rstr) list"
  resp_body :: bytes

definition DNS_MESSAGE_TYPE :: rstr where
  "DNS_MESSAGE_TYPE = lit ''application/dns-message''"

text \<open>\<open>pair.splitn(2, '=')\<close> with both parts present: up to the first sign, and the rest.\<close>

fun split_first :: "u8 \<Rightarrow> rstr \<Rightarrow> (rstr \<times> rstr) option" where
  "split_first d [] = None"
| "split_first d (x # xs) =
     (if x = d then Some ([], xs)
      else map_option (\<lambda>(key, val). (x # key, val)) (split_first d xs))"

fun find_dns :: "rstr list \<Rightarrow> rstr option" where
  "find_dns [] = None"
| "find_dns (pair # pairs) =
     (case split_first (61 :: u8) pair of
        Some (key, val) \<Rightarrow> if key = lit ''dns'' then Some val else find_dns pairs
      | None \<Rightarrow> find_dns pairs)"

definition process_dns_query ::
  "'c cache_ops \<Rightarrow> resolver \<Rightarrow> nat \<Rightarrow> bytes \<Rightarrow> (http_response, unit, 'c) comp" where
  "process_dns_query L X fuel query_bytes =
     (case DnsMessage_parse (r_unicode X) query_bytes of
        Err _ \<Rightarrow> failR ()
      | Panic \<Rightarrow> panicR
      | Ok query \<Rightarrow>
          if questions query = [] then
            retR \<lparr>status = 200, resp_headers = [(lit ''content-type'', DNS_MESSAGE_TYPE)],
              resp_body = DnsMessage_serialize (make_error_response query FormatError)\<rparr>
          else
            let question = hd (questions query);
                response = make_response query;
                reply = (\<lambda>response. \<lparr>status = 200,
                  resp_headers = [(lit ''content-type'', DNS_MESSAGE_TYPE),
                    (lit ''cache-control'', lit ''max-age=300'')],
                  resp_body = DnsMessage_serialize response\<rparr>)
            in matchR (resolve L X fuel (q_name question) (q_type question))
                 (\<lambda>records. retR (reply (response\<lparr>answers := records,
                    header := (header response)\<lparr>response_code := NoError\<rparr>\<rparr>)))
                 (\<lambda>code. retR (reply (response\<lparr>header :=
                    (header response)\<lparr>response_code := code\<rparr>\<rparr>))))"

definition handle_get ::
  "(rstr \<Rightarrow> bytes option) \<Rightarrow> 'c cache_ops \<Rightarrow> resolver \<Rightarrow> nat \<Rightarrow> http_request \<Rightarrow>
   (http_response, unit, 'c) comp" where
  "handle_get base64_decode L X fuel req =
     (case find_dns (split_on (38 :: u8) (unwrap_or (uri_query req) [])) of
        None \<Rightarrow> failR ()
      | Some dns_param \<Rightarrow>
          (case base64_decode dns_param of
             None \<Rightarrow> failR ()
           | Some dns_bytes \<Rightarrow> process_dns_query L X fuel dns_bytes))"

definition handle_post ::
  "'c cache_ops \<Rightarrow> resolver \<Rightarrow> nat \<Rightarrow> http_request \<Rightarrow> (http_response, unit, 'c) comp" where
  "handle_post L X fuel req =
     (if unwrap_or (content_type req) [] \<noteq> DNS_MESSAGE_TYPE then
        retR \<lparr>status = 415, resp_headers = [],
          resp_body = lit ''Expected application/dns-message''\<rparr>
      else
        (case body req of
           None \<Rightarrow> failR ()
         | Some query_bytes \<Rightarrow> process_dns_query L X fuel query_bytes))"

definition handle_request ::
  "(rstr \<Rightarrow> bytes option) \<Rightarrow> 'c cache_ops \<Rightarrow> resolver \<Rightarrow> nat \<Rightarrow> http_request \<Rightarrow>
   (http_response, unit, 'c) comp" where
  "handle_request base64_decode L X fuel req =
     matchR
       (if http_method_of req = GET \<and> path req = lit ''/dns-query'' then
          handle_get base64_decode L X fuel req
        else if http_method_of req = POST \<and> path req = lit ''/dns-query'' then handle_post L X fuel req
        else if http_method_of req = GET \<and> path req = lit ''/health'' then
          retR \<lparr>status = 200, resp_headers = [], resp_body = lit ''OK''\<rparr>
        else retR \<lparr>status = 404, resp_headers = [], resp_body = lit ''Not Found''\<rparr>)
       retR
       (\<lambda>_. retR \<lparr>status = 500, resp_headers = [], resp_body = lit ''Internal Server Error''\<rparr>)"

section \<open>Connections\<close>

text \<open>
  What the server uses of files, PEM, TLS and HTTP: the bytes of a file, the certificates in them
  (those that can be read) and the first private key, if any (an outer \<open>None\<close> is an error), a TLS
  configuration, what a handshake makes of the bytes of a connection, and the requests in what a
  connection carries, in sequences that are each handled one after the other: all requests of an
  HTTP/1 connection are one sequence, each stream of an HTTP/2 connection is one of its own. Where the code has an error only to log it, the model has \<open>None\<close>.
\<close>

record 'tls web =
  open_file :: "rstr \<Rightarrow> bytes option"
  pem_certs :: "bytes \<Rightarrow> bytes option list"
  pem_private_key :: "bytes \<Rightarrow> bytes option option"
  with_single_cert :: "bytes list \<Rightarrow> bytes \<Rightarrow> 'tls option"
  tls_accept :: "'tls \<Rightarrow> bytes \<Rightarrow> bytes option"
  http_requests :: "bytes \<Rightarrow> http_request list list"

definition create_tls_acceptor :: "'tls web \<Rightarrow> rstr \<Rightarrow> rstr \<Rightarrow> 'tls option" where
  "create_tls_acceptor B cert_path key_path =
     Option.bind (open_file B cert_path) (\<lambda>cert_file.
     Option.bind (open_file B key_path) (\<lambda>key_file.
     let certs = List.map_filter (\<lambda>r. r) (pem_certs B cert_file)
     in Option.bind (pem_private_key B key_file) (\<lambda>found.
        case found of
          None \<Rightarrow> None
        | Some key \<Rightarrow> with_single_cert B certs key)))"

text \<open>A server that cannot set up TLS goes on without it.\<close>

definition tls_acceptor :: "'tls web \<Rightarrow> rstr option \<Rightarrow> rstr option \<Rightarrow> 'tls option" where
  "tls_acceptor B tls_cert_path tls_key_path =
     (case (tls_cert_path, tls_key_path) of
        (Some cert_path, Some key_path) \<Rightarrow> create_tls_acceptor B cert_path key_path
      | _ \<Rightarrow> None)"

text \<open>The sequences of requests of one accepted connection.\<close>

definition doh_connection :: "'tls web \<Rightarrow> 'tls option \<Rightarrow> bytes \<Rightarrow> http_request list list" where
  "doh_connection B acceptor stream =
     (case acceptor of
        Some acceptor \<Rightarrow>
          (case tls_accept B acceptor stream of
             Some tls_stream \<Rightarrow> http_requests B tls_stream
           | None \<Rightarrow> [])
      | None \<Rightarrow> http_requests B stream)"

text \<open>The handling of a sequence of requests: a panic in one ends it, with the responses so far.\<close>

fun http_task ::
  "(rstr \<Rightarrow> bytes option) \<Rightarrow> 'c cache_ops \<Rightarrow> resolver \<Rightarrow> nat \<Rightarrow> http_request list \<Rightarrow>
   (http_response list, unit, 'c) comp" where
  "http_task base64_decode L X fuel [] s = (Some (Ok []), s)"
| "http_task base64_decode L X fuel (req # reqs) s =
     (case handle_request base64_decode L X fuel req s of
        (Some (Ok resp), s') \<Rightarrow>
          (case http_task base64_decode L X fuel reqs s' of
             (Some (Ok resps), s'') \<Rightarrow> (Some (Ok (resp # resps)), s'')
           | r \<Rightarrow> r)
      | (Some (Err e), s') \<Rightarrow> (Some (Err e), s')
      | (Some Panic, s') \<Rightarrow> (Some (Ok []), s')
      | (None, s') \<Rightarrow> (None, s'))"

section \<open>What a request does to the cache\<close>

context answering
begin

lemma process_dns_query_keeps: "served (\<lambda>_. True) (process_dns_query L X fuel data)"
  unfolding process_dns_query_def Let_def
  by (auto intro!: runs_failR runs_panicR runs_if runs_retR
      runs_matchR [OF runs_weaken [OF resolve_keeps]] split: res.splits)

lemma handle_request_keeps: "served (\<lambda>_. True) (handle_request base64_decode L X fuel req)"
proof -
  have "served (\<lambda>_. True) (handle_get base64_decode L X fuel req)"
    "served (\<lambda>_. True) (handle_post L X fuel req)"
    unfolding handle_get_def handle_post_def
    by (auto intro!: runs_if runs_retR runs_failR process_dns_query_keeps split: option.splits)
  then show ?thesis
    unfolding handle_request_def by (intro runs_matchR [where Q = "\<lambda>_. True"] runs_if runs_retR) auto
qed

lemma http_task_safe:
  "safe (cache s) (history s) \<Longrightarrow>
   safe (cache (snd (http_task base64_decode L X fuel reqs s)))
     (history (snd (http_task base64_decode L X fuel reqs s)))"
proof (induction reqs arbitrary: s)
  case (Cons req reqs)
  obtain r s' where h: "handle_request base64_decode L X fuel req s = (r, s')" by fastforce
  have "safe (cache s') (history s')"
    using runsD(1) [OF handle_request_keeps Cons.prems, of base64_decode fuel req] by (simp add: h)
  with Cons.IH [OF this] show ?case
    by (cases "http_task base64_decode L X fuel reqs s'")
      (auto simp: h split: option.splits res.splits)
qed simp

end

end
