(* ===== verification/Startup.thy ===== *)
theory Startup
  imports Doh
begin

text \<open>
  \<open>src/main.rs\<close>: the configuration and what the server is started with. Reading a file and the
  \<open>toml\<close> crate's parser are parameters.
\<close>

record DohConfig =
  doh_listen_addr :: rstr
  tls_cert :: "rstr option"
  tls_key :: "rstr option"

record Config =
  listen_addr :: rstr
  cache_size :: nat
  enable_dnssec :: bool
  doh :: "DohConfig option"
  zones_file :: "rstr option"

definition default_listen_addr :: rstr where
  "default_listen_addr = lit ''127.0.0.1:53''"

definition default_cache_size :: nat where
  "default_cache_size = 10000"

definition default_doh_addr :: rstr where
  "default_doh_addr = lit ''127.0.0.1:8443''"

definition Config_default :: Config where
  "Config_default =
     \<lparr>listen_addr = default_listen_addr, cache_size = default_cache_size, enable_dnssec = False,
      doh = None, zones_file = None\<rparr>"

definition config_paths :: "rstr list" where
  "config_paths =
     [lit ''config/config.toml'', lit ''config.toml'', lit ''/etc/dns-server/config.toml'']"

text \<open>The first of the paths that can be read is the one that is parsed.\<close>

fun load_from ::
  "(rstr \<Rightarrow> rstr option) \<Rightarrow> (rstr \<Rightarrow> (Config, rstr) res) \<Rightarrow> rstr list \<Rightarrow> (Config, rstr) res" where
  "load_from read toml [] = Ok Config_default"
| "load_from read toml (p # ps) =
     (case read p of Some content \<Rightarrow> toml content | None \<Rightarrow> load_from read toml ps)"

definition main_load_config ::
  "(rstr \<Rightarrow> rstr option) \<Rightarrow> (rstr \<Rightarrow> (Config, rstr) res) \<Rightarrow> (Config, rstr) res" where
  "main_load_config read toml = load_from read toml config_paths"

text \<open>The zones: a file that cannot be read leaves the store empty, a bad one stops the server.\<close>

definition load_zones ::
  "unicode \<Rightarrow> (rstr \<Rightarrow> rstr option) \<Rightarrow> (rstr \<Rightarrow> (ZoneDefinition list, rstr) res) \<Rightarrow> Config \<Rightarrow>
   (Zone list, rstr) res" where
  "load_zones U read toml config =
     (case zones_file config of
        None \<Rightarrow> Ok []
      | Some f \<Rightarrow>
          (case read f of
             None \<Rightarrow> Ok []
           | Some content \<Rightarrow>
               res_bind (toml content) (\<lambda>defs.
               case load_config U [] defs of
                 (Ok (), zones) \<Rightarrow> Ok zones
               | (Err e, _) \<Rightarrow> Err (DnsError_fmt e)
               | (Panic, _) \<Rightarrow> Panic)))"

definition start_server ::
  "'c cache_ops \<Rightarrow> unicode \<Rightarrow> crypto \<Rightarrow> world \<Rightarrow> (rstr \<Rightarrow> rstr option) \<Rightarrow>
   (rstr \<Rightarrow> (ZoneDefinition list, rstr) res) \<Rightarrow> Config \<Rightarrow> (resolver \<times> 'c rstate, rstr) res" where
  "start_server L U C W read toml config =
     res_bind (load_zones U read toml config) (\<lambda>zones.
     Ok (\<lparr>r_unicode = U, r_zones = zones, r_crypto = C, r_dnssec = enable_dnssec config,
          r_world = W\<rparr>,
         fresh_state L (cache_size config)))"

section \<open>Lemmas\<close>

lemma list_all2_right:
  "list_all2 P xs ys \<Longrightarrow> (\<And>x y. P x y \<Longrightarrow> Q y) \<Longrightarrow> list_all Q ys"
  by (induction rule: list_all2_induct) auto

lemma list_all2_right_set: "list_all2 P xs ys \<Longrightarrow> y \<in> set ys \<Longrightarrow> \<exists>x \<in> set xs. P x y"
  by (induction rule: list_all2_induct) auto

lemma load_config_typed:
  assumes "load_config U [] defs = (Ok (), zs)"
  shows "list_all zone_typed zs"
proof -
  have "list_all2 (\<lambda>def z. Zone_from_config U def = Ok z) defs zs"
    using assms by (simp add: load_config_Ok)
  then show ?thesis by (rule list_all2_right) (rule Zone_from_config_typed)
qed

lemma load_zones_Ok:
  assumes "load_zones U read toml config = Ok zs"
  obtains "zs = []" | defs where "load_config U [] defs = (Ok (), zs)"
proof (cases "zones_file config")
  case (Some f)
  show ?thesis
  proof (cases "read f")
    case (Some content)
    then obtain defs where defs: "toml content = Ok defs"
      "(case load_config U [] defs of (Ok (), zones) \<Rightarrow> Ok zones
        | (Err e, _) \<Rightarrow> Err (DnsError_fmt e) | (Panic, _) \<Rightarrow> Panic) = Ok zs"
      using assms \<open>zones_file config = Some f\<close> by (simp add: load_zones_def) blast
    then have "load_config U [] defs = (Ok (), zs)"
      by (cases "load_config U [] defs"; cases "fst (load_config U [] defs)")
        (simp_all split: unit.splits)
    then show ?thesis by (rule that(2))
  qed (use assms Some in \<open>simp add: load_zones_def that(1)\<close>)
qed (use assms in \<open>simp add: load_zones_def that(1)\<close>)

lemma load_zones_typed: "load_zones U read toml config = Ok zs \<Longrightarrow> list_all zone_typed zs"
  by (erule load_zones_Ok) (simp_all add: load_config_typed)

end
