(* ===== verification/Service.thy ===== *)
theory Service
  imports Startup
begin

text \<open>
  The running server: the receive loops of \<open>src/server/mod.rs\<close> and \<open>src/doh/mod.rs\<close>, the tasks
  they spawn, and \<open>main\<close> of \<open>src/main.rs\<close>, which starts them and ends with them. A step of the
  service is an event of a socket or the run of one of the spawned tasks, in any order. A task
  runs as a whole; what other tasks do to the cache in the meantime is in \<open>w_others\<close>. A panic
  ends only its task. The requests of an HTTP/1 connection are one task, which handles them in
  their order; those of an HTTP/2 connection are tasks of their own, as \<open>hyper\<close> spawns them.
\<close>

section \<open>Tasks\<close>

text \<open>A datagram, a TCP connection, or a sequence of requests of an HTTP connection.\<close>

datatype request = Udp bytes | Tcp bytes | Http "http_request list"

datatype reply = Sent "bytes list" | Responses "http_response list" | Nothing

text \<open>What the client of a task gets, \<open>None\<close> when the task has not ended within its fuel.\<close>

definition serve_one ::
  "(rstr \<Rightarrow> bytes option) \<Rightarrow> 'c cache_ops \<Rightarrow> resolver \<Rightarrow> nat \<Rightarrow> request \<Rightarrow> 'c rstate \<Rightarrow>
   reply option \<times> 'c rstate" where
  "serve_one base64_decode L X fuel req s =
     (case req of
        Udp d \<Rightarrow>
          (case udp_task L X fuel d s of
             (None, s') \<Rightarrow> (None, s')
           | (Some (Ok (Some b)), s') \<Rightarrow> (Some (Sent [b]), s')
           | (_, s') \<Rightarrow> (Some Nothing, s'))
      | Tcp stream \<Rightarrow>
          (case tcp_task L X fuel stream s of
             (None, s') \<Rightarrow> (None, s')
           | (Some (Ok bs), s') \<Rightarrow> (Some (Sent bs), s')
           | (_, s') \<Rightarrow> (Some Nothing, s'))
      | Http reqs \<Rightarrow>
          (case http_task base64_decode L X fuel reqs s of
             (None, s') \<Rightarrow> (None, s')
           | (Some (Ok resps), s') \<Rightarrow> (Some (Responses resps), s')
           | (_, s') \<Rightarrow> (Some Nothing, s')))"

text \<open>The states of the resolver reached by tasks, from an empty cache on.\<close>

inductive serves ::
  "(rstr \<Rightarrow> bytes option) \<Rightarrow> 'c cache_ops \<Rightarrow> resolver \<Rightarrow> nat \<Rightarrow> 'c rstate \<Rightarrow> bool"
  for B :: "rstr \<Rightarrow> bytes option" and L :: "'c cache_ops" and X :: resolver and max_entries :: nat
where
  serves_start: "serves B L X max_entries (fresh_state L max_entries)"
| serves_request: "serves B L X max_entries s \<Longrightarrow> serve_one B L X fuel req s = (r, s') \<Longrightarrow>
    serves B L X max_entries s'"

section \<open>The service\<close>

record 'c service =
  dns_up :: bool
  doh_up :: bool
  tasks :: "request multiset"
  shared :: "'c rstate"

text \<open>\<open>main\<close> has returned: nothing of the process is left.\<close>

definition exited :: "'c service \<Rightarrow> 'c service" where
  "exited S = S\<lparr>dns_up := False, doh_up := False, tasks := {#}\<rparr>"

text \<open>
  What the loops make of what \<open>recv_from\<close> and \<open>accept\<close> return, \<open>None\<close> for an error: a task, or the
  end of the loop. The two loops of the DNS server are the branches of a \<open>select!\<close>: the end of one
  ends the other, and \<open>main\<close> with them. The loop of DNS over HTTPS ends alone; \<open>conn\<close> gives the
  requests of one of its connections.
\<close>

definition udp_event :: "bytes option \<Rightarrow> 'c service \<Rightarrow> 'c service" where
  "udp_event got S = (case got of
     Some d \<Rightarrow> S\<lparr>tasks := add_mset (Udp d) (tasks S)\<rparr> | None \<Rightarrow> exited S)"

definition tcp_event :: "bytes option \<Rightarrow> 'c service \<Rightarrow> 'c service" where
  "tcp_event got S = (case got of
     Some stream \<Rightarrow> S\<lparr>tasks := add_mset (Tcp stream) (tasks S)\<rparr> | None \<Rightarrow> exited S)"

definition doh_event :: "(bytes \<Rightarrow> http_request list list) \<Rightarrow> bytes option \<Rightarrow> 'c service \<Rightarrow> 'c service" where
  "doh_event conn got S = (case got of
     Some stream \<Rightarrow> S\<lparr>tasks := tasks S + mset (map Http (conn stream))\<rparr>
   | None \<Rightarrow> S\<lparr>doh_up := False\<rparr>)"

datatype event =
    UdpReceived "bytes option"
  | TcpAccepted "bytes option"
  | DohAccepted "bytes option"
  | TaskEnded request "reply option"

inductive service_step ::
  "(rstr \<Rightarrow> bytes option) \<Rightarrow> (bytes \<Rightarrow> http_request list list) \<Rightarrow> 'c cache_ops \<Rightarrow> resolver \<Rightarrow>
   'c service \<Rightarrow> event \<Rightarrow> 'c service \<Rightarrow> bool"
  for B :: "rstr \<Rightarrow> bytes option" and conn :: "bytes \<Rightarrow> http_request list list"
    and L :: "'c cache_ops" and X :: resolver
where
  udp_turn: "dns_up S \<Longrightarrow> service_step B conn L X S (UdpReceived got) (udp_event got S)"
| tcp_turn: "dns_up S \<Longrightarrow> service_step B conn L X S (TcpAccepted got) (tcp_event got S)"
| doh_turn: "doh_up S \<Longrightarrow> service_step B conn L X S (DohAccepted got) (doh_event conn got S)"
| task_runs: "req \<in># tasks S \<Longrightarrow> serve_one B L X fuel req (shared S) = (r, s') \<Longrightarrow>
    service_step B conn L X S (TaskEnded req r) (S\<lparr>tasks := tasks S - {#req#}, shared := s'\<rparr>)"

inductive service_run ::
  "(rstr \<Rightarrow> bytes option) \<Rightarrow> (bytes \<Rightarrow> http_request list list) \<Rightarrow> 'c cache_ops \<Rightarrow> resolver \<Rightarrow>
   'c service \<Rightarrow> event list \<Rightarrow> 'c service \<Rightarrow> bool"
  for B :: "rstr \<Rightarrow> bytes option" and conn :: "bytes \<Rightarrow> http_request list list"
    and L :: "'c cache_ops" and X :: resolver and S0 :: "'c service"
where
  service_start: "service_run B conn L X S0 [] S0"
| service_event: "service_run B conn L X S0 es S \<Longrightarrow> service_step B conn L X S e S' \<Longrightarrow>
    service_run B conn L X S0 (es @ [e]) S'"

section \<open>Starting it\<close>

text \<open>Binding a socket to an address, with the text of the error.\<close>

record sockets =
  bind_udp :: "rstr \<Rightarrow> (unit, rstr) res"
  bind_tcp :: "rstr \<Rightarrow> (unit, rstr) res"

text \<open>\<open>DnsServer::run\<close> up to its loops.\<close>

definition bind_dns :: "sockets \<Rightarrow> rstr \<Rightarrow> (unit, rstr) res" where
  "bind_dns N addr = res_bind (bind_udp N addr) (\<lambda>_. bind_tcp N addr)"

definition server_main ::
  "'c cache_ops \<Rightarrow> unicode \<Rightarrow> crypto \<Rightarrow> world \<Rightarrow> sockets \<Rightarrow> (rstr \<Rightarrow> rstr option) \<Rightarrow>
   (rstr \<Rightarrow> (ZoneDefinition list, rstr) res) \<Rightarrow> Config \<Rightarrow> (resolver \<times> 'c service, rstr) res" where
  "server_main L U C W N read toml config =
     res_bind (start_server L U C W read toml config) (\<lambda>(X, s).
     let doh_bound = (case doh config of
           None \<Rightarrow> False | Some d \<Rightarrow> bind_tcp N (doh_listen_addr d) = Ok ())
     in res_bind (bind_dns N (listen_addr config)) (\<lambda>_.
        Ok (X, \<lparr>dns_up = True, doh_up = doh_bound, tasks = {#}, shared = s\<rparr>)))"

section \<open>Lemmas\<close>

inductive_simps udp_received_simp: "service_step B conn L X S (UdpReceived d) S'"
inductive_simps tcp_accepted_simp: "service_step B conn L X S (TcpAccepted d) S'"
inductive_simps doh_accepted_simp: "service_step B conn L X S (DohAccepted d) S'"
inductive_simps task_ended_simp: "service_step B conn L X S (TaskEnded req r) S'"

lemmas step_simps = udp_received_simp tcp_accepted_simp doh_accepted_simp task_ended_simp
lemmas event_defs = udp_event_def tcp_event_def doh_event_def exited_def

lemma server_main_Ok:
  assumes "server_main L U C W N read toml config = Ok (X, S)"
  shows "start_server L U C W read toml config = Ok (X, shared S)"
    and "dns_up S" "tasks S = {#}" "doh_up S \<longleftrightarrow> (case doh config of
      None \<Rightarrow> False | Some d \<Rightarrow> bind_tcp N (doh_listen_addr d) = Ok ())"
  using assms by (auto simp: server_main_def Let_def)

lemma start_server_fresh:
  "start_server L U C W read toml config = Ok (X, s) \<Longrightarrow> s = fresh_state L (cache_size config)"
  by (auto simp: start_server_def)

text \<open>The service changes the state of the resolver by tasks only.\<close>

lemma service_serves:
  "service_run B conn L X S0 es S \<Longrightarrow> serves B L X n (shared S0) \<Longrightarrow> serves B L X n (shared S)"
proof (induction rule: service_run.induct)
  case (service_event es S e S')
  then show ?case
    by (cases e) (auto simp: step_simps event_defs split: option.splits intro: serves_request)
qed

text \<open>Which loops are up, from the events alone.\<close>

lemma service_up:
  "service_run B conn L X S0 es S \<Longrightarrow> tasks S0 = {#} \<Longrightarrow> dns_up S0 \<Longrightarrow>
   (dns_up S \<longleftrightarrow> UdpReceived None \<notin> set es \<and> TcpAccepted None \<notin> set es) \<and>
   (doh_up S \<longleftrightarrow> doh_up S0 \<and> dns_up S \<and> DohAccepted None \<notin> set es) \<and>
   (\<not> dns_up S \<longrightarrow> tasks S = {#})"
proof (induction rule: service_run.induct)
  case (service_event es S e S')
  then show ?case by (cases e) (auto simp: step_simps event_defs split: option.splits)
qed simp

context answering
begin

lemma serve_one_safe:
  assumes "safe (cache s) (history s)" "serve_one B L X fuel req s = (r, s')"
  shows "safe (cache s') (history s')"
proof (cases req)
  case (Udp d)
  then show ?thesis
    using assms(2) runsD(1) [OF udp_task_keeps assms(1), of fuel d]
    by (auto simp: serve_one_def split: prod.splits option.splits res.splits)
next
  case (Tcp d)
  then show ?thesis
    using assms(2) runsD(1) [OF tcp_task_keeps assms(1), of fuel d]
    by (auto simp: serve_one_def split: prod.splits option.splits res.splits)
next
  case (Http reqs)
  then show ?thesis
    using assms(2) http_task_safe [OF assms(1), of B fuel reqs]
    by (auto simp: serve_one_def split: prod.splits option.splits res.splits)
qed

lemma serves_safe: "serves B L X max_entries s \<Longrightarrow> safe (cache s) (history s)"
proof (induction rule: serves.induct)
  case serves_start
  then show ?case using safe_new by (simp add: fresh_state_def)
next
  case (serves_request s fuel req r s')
  then show ?case by (blast intro: serve_one_safe)
qed

end

end
