(* ===== verification/Queries.thy ===== *)
theory Queries
  imports Fuel
begin

text \<open>
  What the resolver sends to a name server and what it takes for the answer: the messages of
  \<open>query_nameservers\<close> and \<open>query_tcp\<close> in \<open>src/resolver/mod.rs\<close>, seen from the other side.
\<close>

section \<open>The queries\<close>

lemma query_types: "canonical_type RecordType.OPT" "canonical_class IN" "canonical_class (RecordClass.Unknown 4096)"
  by (simp_all add: canonical_type_def canonical_class_def RecordType_from_u16_def RecordClass_from_u16_def)

lemma wf_query_header: "wf_header (DnsHeader_new_query i\<lparr>recursion_desired := b, authentic_data := c\<rparr>)"
  "wf_header (DnsHeader_new_query i\<lparr>recursion_desired := b\<rparr>)"
  by (simp_all add: wf_header_def DnsHeader_new_query_def OpCode_from_u8_def ResponseCode_from_u8_def)

lemma wf_udp_query:
  "wf_name (r_unicode X) n \<Longrightarrow> canonical_type t \<Longrightarrow> wf_message (r_unicode X) (udp_query X i n t)"
  by (simp add: udp_query_def Let_def wf_message_def DnsMessage_new_query_def wf_question_def
      DnsQuestion_new_def query_types wf_record_def wf_query_header wf_name_def DnsName_root_def)

lemma wf_tcp_query: "wf_name U n \<Longrightarrow> canonical_type t \<Longrightarrow> wf_message U (tcp_query i n t)"
  by (simp add: tcp_query_def Let_def wf_message_def DnsMessage_new_query_def wf_question_def
      DnsQuestion_new_def query_types wf_query_header)

text \<open>A message is read as a query with the given id and question, by whoever gets it.\<close>

definition asks :: "unicode \<Rightarrow> bytes \<Rightarrow> u16 \<Rightarrow> DnsName \<Rightarrow> RecordType \<Rightarrow> bool \<Rightarrow> bool" where
  "asks U b i n t dnssec = (\<exists>m. DnsMessage_parse U b = Ok m \<and>
     h_id (header m) = i \<and> \<not> is_response (header m) \<and> opcode (header m) = OpCode.Query \<and>
     \<not> recursion_desired (header m) \<and> authentic_data (header m) = dnssec \<and>
     questions m = [\<lparr>q_name = n, q_type = t, q_class = IN\<rparr>] \<and> answers m = [] \<and> authorities m = [] \<and>
     additional m = (if dnssec then
       [\<lparr>rr_name = DnsName_root, rr_type = RecordType.OPT, rr_class = RecordClass.Unknown 4096,
         rr_ttl = 0x8000, rr_data = RData.OPT []\<rparr>] else []))"



section \<open>The answers\<close>

text \<open>What arrives in a datagram, from anywhere, after the query \<open>q\<close> was sent to \<open>a\<close>; and the reply
  of \<open>a\<close> over a connection.\<close>

definition udp_reply :: "resolver \<Rightarrow> bytes \<Rightarrow> SocketAddr \<Rightarrow> DnsMessage \<Rightarrow> bool" where
  "udp_reply X q a m = (\<exists>k d sender. w_recv (r_world X) k q a = Datagram d sender \<and>
     DnsMessage_parse (r_unicode X) (take 4096 d) = Ok m)"

definition tcp_reply :: "resolver \<Rightarrow> bytes \<Rightarrow> SocketAddr \<Rightarrow> DnsMessage \<Rightarrow> bool" where
  "tcp_reply X q a m = (\<exists>k l len rest msg rest'.
     read_exact 2 (w_stream (r_world X) k q a) = Some (l, rest) \<and>
     u16_at l 0 = (Ok len :: (u16, DnsError) res) \<and> read_exact (unat len) rest = Some (msg, rest') \<and>
     DnsMessage_parse (r_unicode X) msg = Ok m)"

text \<open>
  The answer taken for a query with id \<open>i\<close> sent to \<open>a\<close>: a datagram with that id, whoever sent it,
  or, when that one was cut, the reply of \<open>a\<close> over TCP.
\<close>

definition taken :: "resolver \<Rightarrow> DnsName \<Rightarrow> RecordType \<Rightarrow> u16 \<Rightarrow> SocketAddr \<Rightarrow> DnsMessage \<Rightarrow> bool" where
  "taken X n t i a m =
     (let q = DnsMessage_serialize (udp_query X i n t) in
      udp_reply X q a m \<and> h_id (header m) = i \<or>
      (\<exists>m' j. udp_reply X q a m' \<and> h_id (header m') = i \<and> truncated (header m') \<and>
         tcp_reply X (DnsMessage_serialize (tcp_query j n t)) a m))"

abbreviation yields :: "('a \<Rightarrow> bool) \<Rightarrow> ('a, ResponseCode, 'c) comp \<Rightarrow> bool" where
  "yields \<equiv> runs (\<lambda>_ _. True) True True (\<lambda>_. True)"

lemma query_tcp_yields:
  "yields (\<lambda>m. \<exists>j. tcp_reply X (DnsMessage_serialize (tcp_query j n t)) a m) (query_tcp X n t a)"
  unfolding query_tcp_def Let_def
  by (intro runs_ask runs_if runs_failR)
    (auto intro!: runs_retR runs_failR runs_panicR split: option.splits res.splits,
      unfold tcp_reply_def, blast)

lemma try_nameservers_yields:
  "yields (\<lambda>m. \<exists>a \<in> set nss. taken X n t i a m)
     (try_nameservers X n t nss i (DnsMessage_serialize (udp_query X i n t)) os
       :: (DnsMessage, ResponseCode, 'c) comp)"
proof (induction os)
  case (Cons o' os)
  let ?q = "DnsMessage_serialize (udp_query X i n t)"
  let ?Q = "\<lambda>m. \<exists>a \<in> set nss. taken X n t i a m"
  let ?next = "try_nameservers X n t nss i ?q os :: (DnsMessage, ResponseCode, 'c) comp"
  have reply: "yields ?Q (if h_id (header m) = i then
        if truncated (header m) then matchR (query_tcp X n t (nss ! o')) retR (\<lambda>_. retR m)
        else retR m else ?next)"
    if m: "udp_reply X ?q (nss ! o') m" and o': "o' < length nss" for m
  proof (intro runs_if Cons.IH)
    assume i: "h_id (header m) = i"
    have here: "?Q m" using m i o' nth_mem [OF o'] unfolding taken_def Let_def by blast
    then show "yields ?Q (retR m)" by (rule runs_retR)
    assume "truncated (header m)"
    then have "tcp_reply X (DnsMessage_serialize (tcp_query j n t)) (nss ! o') m' \<Longrightarrow> ?Q m'" for j m'
      using m i nth_mem [OF o'] unfolding taken_def Let_def by blast
    then show "yields ?Q (matchR (query_tcp X n t (nss ! o')) retR (\<lambda>_. retR m))"
      by (intro runs_matchR [OF query_tcp_yields]) (auto intro: runs_retR here)
  qed
  have got: "yields ?Q (case w_recv (r_world X) k ?q (nss ! o') of
      Datagram d sender \<Rightarrow>
        (case DnsMessage_parse (r_unicode X) (take 4096 d) of
           Ok response \<Rightarrow>
             if h_id (header response) = i then
               if truncated (header response) then
                 matchR (query_tcp X n t (nss ! o')) retR (\<lambda>_. retR response)
               else retR response
             else ?next
         | Err _ \<Rightarrow> ?next | Panic \<Rightarrow> panicR)
    | RecvError \<Rightarrow> ?next | Timeout \<Rightarrow> ?next)" if "o' < length nss" for k
  proof (cases "w_recv (r_world X) k ?q (nss ! o')")
    case (Datagram d sender)
    show ?thesis
    proof (cases "DnsMessage_parse (r_unicode X) (take 4096 d)")
      case (Ok m)
      then have "udp_reply X ?q (nss ! o') m" using Datagram by (auto simp: udp_reply_def)
      from reply [OF this that] show ?thesis by (simp add: Datagram Ok)
    qed (simp_all add: Datagram Cons.IH runs_panicR)
  qed (simp_all add: Cons.IH)
  show ?case
    unfolding try_nameservers.simps Let_def
    by (intro runs_if runs_ask Cons.IH got runs_panicR) auto
qed (simp add: runs_failR)

text \<open>The same environment, but for the addresses datagrams come from.\<close>

definition with_senders :: "(nat \<Rightarrow> bytes \<Rightarrow> SocketAddr \<Rightarrow> SocketAddr) \<Rightarrow> resolver \<Rightarrow> resolver" where
  "with_senders f X = X\<lparr>r_world := (r_world X)\<lparr>w_recv := \<lambda>k q a.
     case w_recv (r_world X) k q a of Datagram d _ \<Rightarrow> Datagram d (f k q a) | got \<Rightarrow> got\<rparr>\<rparr>"

lemma with_senders_fields [simp]:
  "r_unicode (with_senders f X) = r_unicode X" "r_dnssec (with_senders f X) = r_dnssec X"
  "w_send (r_world (with_senders f X)) = w_send (r_world X)"
  "w_bind (r_world (with_senders f X)) = w_bind (r_world X)"
  "w_random16 (r_world (with_senders f X)) = w_random16 (r_world X)"
  "w_random64 (r_world (with_senders f X)) = w_random64 (r_world X)"
  "w_connect (r_world (with_senders f X)) = w_connect (r_world X)"
  "w_write (r_world (with_senders f X)) = w_write (r_world X)"
  "w_stream (r_world (with_senders f X)) = w_stream (r_world X)"
  "w_recv (r_world (with_senders f X)) k q a =
     (case w_recv (r_world X) k q a of Datagram d _ \<Rightarrow> Datagram d (f k q a) | got \<Rightarrow> got)"
  by (simp_all add: with_senders_def)

lemma ns_offsets_senders: "ns_offsets (with_senders f X) n is = ns_offsets X n is"
  by (induction "is") (simp_all cong: if_cong)

lemma query_tcp_senders: "query_tcp (with_senders f X) n t a = query_tcp X n t a"
  unfolding query_tcp_def Let_def with_senders_fields by (rule refl)

lemma udp_query_senders: "udp_query (with_senders f X) i n t = udp_query X i n t"
  by (simp add: udp_query_def)

lemma ask_cong: "(\<And>k. f (w k) = f' (w' k)) \<Longrightarrow> matchR (askR w) f h = matchR (askR w') f' h"
  by (rule ext) (simp add: matchR_def)

lemma try_nameservers_senders:
  "try_nameservers (with_senders f X) n t nss i q os = try_nameservers X n t nss i q os"
proof (induction os)
  case (Cons o' os)
  show ?case
    unfolding try_nameservers.simps Let_def Cons.IH query_tcp_senders with_senders_fields
    by (intro if_cong refl ask_cong) (auto intro!: ask_cong split: recv.splits)
qed simp

lemma query_nameservers_senders:
  "query_nameservers (with_senders f X) n t nss = query_nameservers X n t nss"
  unfolding query_nameservers_def Let_def try_nameservers_senders ns_offsets_senders
    udp_query_senders with_senders_fields by (rule refl)

text \<open>
  C11. Which message is taken for the answer when name servers are asked: a datagram that was
  received after the query had been sent to one of them and that carries the id drawn for the
  query, or, when that datagram was cut, the reply of that server over TCP. The address a
  datagram comes from is not looked at: with any other senders the outcome is the same.
\<close>

theorem reply_accepted:
  fixes s :: "'c rstate"
  assumes "query_nameservers X n t nss s = (Some (Ok m), s')"
  shows "(\<exists>a i. a \<in> set nss \<and> i \<in> range (w_random16 (r_world X)) \<and> taken X n t i a m) \<and>
    query_nameservers (with_senders f X) n t nss s = (Some (Ok m), s')"
proof -
  have o: "yields (\<lambda>_. True) (ns_offsets X k is :: (nat list, ResponseCode, 'c) comp)" for k "is"
    by (induction "is") (auto intro!: runs_retR runs_ask runs_if runs_panicR runs_bindR)
  have "yields (\<lambda>m. \<exists>a i. a \<in> set nss \<and> i \<in> range (w_random16 (r_world X)) \<and> taken X n t i a m)
      (query_nameservers X n t nss :: (DnsMessage, ResponseCode, 'c) comp)"
    unfolding query_nameservers_def Let_def
    by (intro runs_ask runs_if runs_failR runs_bindR [OF o] runs_conseq [OF try_nameservers_yields]) auto
  from runsD(2) [OF this _ assms] assms show ?thesis by (simp add: query_nameservers_senders)
qed

theorem reply_accepted_witness:
  "\<exists>m i. taken loop_resolver DnsName_root RecordType.A i (SocketAddr server_a 53) m \<and>
    fst (query_nameservers (with_senders (\<lambda>_ _ _. SocketAddr server_b 9) loop_resolver) DnsName_root
      RecordType.A [SocketAddr server_a 53] (fresh_state list_lru 2)) = Some (Ok m)"
proof -
  have "r_world loop_resolver = loop_world" by (simp add: loop_resolver_def)
  then obtain m and s' :: "(nat \<times> (CacheKey \<times> CacheEntry) list) rstate" where
    "query_nameservers loop_resolver DnsName_root RecordType.A [SocketAddr server_a 53]
       (fresh_state list_lru 2) = (Some (Ok m), s')"
    using loop_query by metis
  from reply_accepted [OF this, of "\<lambda>_ _ _. SocketAddr server_b 9"] show ?thesis by auto
qed

end
