(* ===== verification/Aliases.thy ===== *)
theory Aliases
  imports Queries "HOL-Library.Sublist"
begin

text \<open>
  Aliases in answers: \<open>follow_cname_chain\<close> of \<open>src/resolver/mod.rs\<close> only ever adds to the chain it
  starts with, so that an answer found through an alias begins with the alias.
\<close>

lemma runs_any: "yields (\<lambda>_. True) m"
  by (simp add: runs_def split: option.splits res.splits)

lemma extend_chain_prefix: "prefix chain (fst (extend_chain rs chain n))"
proof (induction rs arbitrary: chain n)
  case (Cons r rs)
  show ?case
    using Cons.IH [of "chain @ [r]"] Cons.IH [of chain]
    by (cases "rr_data r") (auto dest: append_prefixD)
qed simp

lemma cname_loop_prefix: "prefix cnames chain \<Longrightarrow> yields (prefix cnames) (cname_loop rec t k chain n)"
proof (induction k arbitrary: chain n)
  case (Suc k)
  have "yields (prefix cnames) (case extend_chain rs chain n of
      (chain, n) \<Rightarrow> cname_loop rec t k chain n)" for rs
    using Suc.IH prefix_order.trans [OF Suc.prems extend_chain_prefix [of chain rs n]]
    by (simp add: case_prod_unfold)
  then show ?case
    unfolding cname_loop.simps
    by (intro runs_bindR [OF runs_any] runs_if runs_matchR [OF runs_any] runs_retR)
      (use Suc.prems in \<open>auto intro: prefix_prefix runs_retR\<close>)
qed (simp add: runs_retR)

lemma follow_prefix: "yields (prefix cnames) (follow_cname_chain rec cnames t)"
  by (auto simp: follow_cname_chain_def intro: runs_failR cname_loop_prefix split: option.splits)


text \<open>A message with an alias, followed where nothing is found.\<close>

definition alias_record :: DnsRecord where
  "alias_record = DnsRecord_new DnsName_root RecordType.CNAME 60 (RData.CNAME (DnsName [[97]]))"

definition alias_message :: DnsMessage where
  "alias_message = DnsMessage_new_query 7\<lparr>answers := [alias_record]\<rparr>"

lemma cname_loop_nothing: "cname_loop (\<lambda>_ _. retR []) t k chain n s = (Some (Ok chain), s)"
  by (induction k arbitrary: chain n) (simp_all add: retR_def matchR_def)


end
