(* ===== verification/Cached.thy ===== *)
theory Cached
  imports Aliases
begin

text \<open>
  What a resolution leaves in the cache of \<open>src/resolver/mod.rs\<close>: whatever way an answer of the
  type asked for was found, the cache has it under the question when the resolution ends, so that
  the same question is answered from it. The zones' answers are the exception, and those that
  begin with an alias are cached under other questions.
\<close>

section \<open>What holds of a value and the state it is returned in\<close>

definition post :: "('a \<Rightarrow> 'c rstate \<Rightarrow> bool) \<Rightarrow> ('a, 'e, 'c) comp \<Rightarrow> bool" where
  "post Q m = (\<forall>s a s'. m s = (Some (Ok a), s') \<longrightarrow> Q a s')"

lemma postD: "post Q m \<Longrightarrow> m s = (Some (Ok a), s') \<Longrightarrow> Q a s'"
  by (simp add: post_def)

lemma post_retR: "(\<And>s. Q a s) \<Longrightarrow> post Q (retR a)"
  by (auto simp: post_def retR_def)

lemma post_stop [simp, intro]: "post Q (failR e)" "post Q panicR" "post Q outR"
  by (simp_all add: post_def failR_def panicR_def outR_def)

lemma post_if: "(b \<Longrightarrow> post Q m) \<Longrightarrow> (\<not> b \<Longrightarrow> post Q n) \<Longrightarrow> post Q (if b then m else n)"
  by simp

lemma post_bindR: "(\<And>a. post Q (f a)) \<Longrightarrow> post Q (bindR m f)"
  by (auto simp: post_def matchR_def failR_def split: prod.splits option.splits res.splits)

lemma post_yields: "yields P m \<Longrightarrow> (\<And>a s. P a \<Longrightarrow> Q a s) \<Longrightarrow> post Q m"
  unfolding post_def using runsD(2) by fastforce

section \<open>Answers of the network\<close>

text \<open>The answer has just been inserted under the question, at the last reading of the clock; or
  it is empty or begins with an alias.\<close>

definition just_inserted ::
  "'c cache_ops \<Rightarrow> resolver \<Rightarrow> DnsName \<Rightarrow> RecordType \<Rightarrow> DnsRecord list \<Rightarrow> 'c rstate \<Rightarrow> bool" where
  "just_inserted L X n t rs s =
     (\<exists>c. cache s = DnsCache_insert L c n t rs (w_instant (r_world X) (tick s - 1)))"

definition stored ::
  "'c cache_ops \<Rightarrow> resolver \<Rightarrow> DnsName \<Rightarrow> RecordType \<Rightarrow> DnsRecord list \<Rightarrow> 'c rstate \<Rightarrow> bool" where
  "stored L X n t rs s =
     (rs \<noteq> [] \<and> (\<forall>r \<in> set rs. rr_type r = t) \<longrightarrow> just_inserted L X n t rs s)"

lemma insertR_then:
  "insertR L X n t rs s = (Some (Ok ()), s\<lparr>tick := tick s + 1,
     cache := DnsCache_insert L (sharedR L X (s\<lparr>tick := tick s + 1\<rparr>)) n t rs (w_instant (r_world X) (tick s)),
     history := recordR X (Insert n t rs (w_instant (r_world X) (tick s))) (s\<lparr>tick := tick s + 1\<rparr>)\<rparr>)"
  by (cases s) (simp add: insertR_def matchR_def)

lemma follow_stored:
  assumes "cnames \<noteq> []" "\<forall>r \<in> set cnames. rr_type r \<noteq> t"
  shows "post (stored L X n t) (follow_cname_chain rec cnames t)"
proof (rule post_yields [OF follow_prefix])
  fix rs s assume "prefix cnames rs"
  then have "hd cnames \<in> set rs" using assms(1) by (auto simp: prefix_def)
  then show "stored L X n t rs s" using assms by (auto simp: stored_def)
qed

lemma process_answers_stored: "post (stored L X n t) (process_answers L X rec n t m)"
  unfolding process_answers_def Let_def
proof (rule post_bindR, intro post_if post_stop, goal_cases)
  case 1
  then show ?case
    by (auto simp: post_def matchR_def insertR_then retR_def stored_def just_inserted_def)
next
  case 2
  then show ?case by (intro post_bindR follow_stored) (auto simp: aliases_def)
qed (simp add: post_retR stored_def)

lemma referral_loop_stored: "post (stored L X n t) (referral_loop L X rec n t fuel nss prev)"
proof (induction fuel arbitrary: nss prev)
  case (Suc fuel)
  show ?case
    unfolding referral_loop.simps
    by (intro post_bindR post_if post_stop process_answers_stored Suc.IH)
      (simp add: post_retR stored_def)
qed simp

lemma resolve_recursive_stored: "post (stored L X n t) (resolve_recursive L X fuel depth n t)"
  by (subst resolve_recursive.simps)
    (auto intro: referral_loop_stored split: option.splits)

section \<open>The same question again\<close>

text \<open>
  Under the question, the cache has the records of the answer, with a life time after the instant
  \<open>t0\<close> that is no shorter than the least time to live in the answer (or a day), nor longer by a
  second.
\<close>

definition kept ::
  "('c \<Rightarrow> (CacheKey \<times> CacheEntry) list) \<Rightarrow> DnsName \<Rightarrow> RecordType \<Rightarrow> DnsRecord list \<Rightarrow> nat \<Rightarrow> 'c \<Rightarrow> bool" where
  "kept view n t rs t0 c = (\<exists>e. map_of (view c) (CacheKey n t) = Some e \<and> entry_ok e \<and>
     map (rr_ttl_update (\<lambda>_. 0)) (e_records e) = map (rr_ttl_update (\<lambda>_. 0)) rs \<and>
     min (unat (min_ttl rs)) 86400 * nanos \<le> e_ttl e - (t0 - inserted_at e) \<and>
     (e_ttl e - (t0 - inserted_at e)) div nanos \<le> unat (min_ttl rs))"

lemma same_but_ttl:
  "map (rr_ttl_update (\<lambda>_. 0)) rs = map (rr_ttl_update (\<lambda>_. 0)) rs' \<Longrightarrow>
   map (\<lambda>r. r\<lparr>rr_ttl := v\<rparr>) rs = map (\<lambda>r. r\<lparr>rr_ttl := v\<rparr>) rs'"
  by (drule arg_cong [where f = "map (\<lambda>r. r\<lparr>rr_ttl := v\<rparr>)"]) (simp add: comp_def)

lemma min_ttl_const: "rs \<noteq> [] \<Longrightarrow> min_ttl (map (\<lambda>r. r\<lparr>rr_ttl := v\<rparr>) rs) = v"
proof -
  have "foldl min v (map (\<lambda>_. v) xs) = v" for xs :: "DnsRecord list" by (induction xs) simp_all
  then show "rs \<noteq> [] \<Longrightarrow> ?thesis" by (cases rs) (simp_all add: min_ttl_def comp_def)
qed

text \<open>Operations of other tasks that only look other questions up.\<close>

definition looks_elsewhere :: "DnsName \<Rightarrow> RecordType \<Rightarrow> cache_op \<Rightarrow> bool" where
  "looks_elsewhere n t op = (case op of
     Lookup m u t1 t2 \<Rightarrow> m \<noteq> n \<or> u \<noteq> t | _ \<Rightarrow> False)"

context dns_cache
begin

lemma kept_insert:
  assumes "0 < cap c" "rs \<noteq> []" "min_ttl rs \<noteq> 0"
  shows "kept view n t rs now (DnsCache_insert L c n t rs now)"
proof (cases rule: insert_cases [of c n t rs now])
  case 2
  have "unat (min (min_ttl rs) 86400) = min (unat (min_ttl rs)) 86400"
    by (simp add: min_def word_le_nat_alt)
  then show ?thesis
    using put_lookup [OF assms(1)] inserted_entry_ok [OF assms(2,3), of now] 2(3)
    by (auto simp: kept_def)
qed (use assms in blast)

lemma kept_lookup:
  assumes "cache_inv c" "DnsCache_lookup L c n t t1 t2 = (Some rs, c')"
  shows "kept view n t rs t2 c'"
proof -
  obtain e where e: "map_of (view c) (CacheKey n t) = Some e" "\<not> is_expired e t1"
    and rs: "rs = map (\<lambda>r. r\<lparr>rr_ttl := remaining_ttl e t2\<rparr>) (e_records e)"
    using lookup_value [of c n t t1 t2] assms(2) by (auto split: option.splits if_splits)
  have ok: "entry_ok e" using map_of_SomeD [OF e(1)] assms(1) by (auto simp: cache_inv_def)
  then have m: "min_ttl rs = remaining_ttl e t2"
    by (simp add: rs min_ttl_const entry_ok_def)
  have "unat (min_ttl rs) = (e_ttl e - (t2 - inserted_at e)) div nanos"
    using remaining_ttl_nat [of e t2] ok by (simp add: m entry_ok_def)
  moreover have "min k 86400 * nanos \<le> d" if "k = d div nanos" for k d
    using that by (metis div_times_less_eq_dividend min.cobounded1 mult_le_mono1 order_trans)
  moreover have "map_of (view c') (CacheKey n t) = Some e"
    using lookup_map [of c n t t1 t2] e assms(2) by simp
  ultimately show ?thesis using ok by (auto simp: kept_def rs)
qed

lemma kept_others:
  "list_all (looks_elsewhere n t) ops \<Longrightarrow> kept view n t rs t0 c \<Longrightarrow>
   kept view n t rs t0 (cache_run L c ops)"
proof (induction ops arbitrary: c)
  case (Cons op ops)
  have "kept view n t rs t0 (cache_step L c op)"
    using Cons.prems by (cases op)
      (auto simp: looks_elsewhere_def kept_def lookup_map split: option.split)
  then show ?case using Cons by (simp add: cache_run_def)
qed (simp add: cache_run_def)

text \<open>A lookup of what is kept, within its life time.\<close>

lemma lookup_kept:
  fixes rs :: "DnsRecord list"
  defines "life \<equiv> min (unat (min_ttl rs)) 86400 * nanos"
  assumes "kept view n t rs t0 c" "t1 - t0 < life"
  obtains ttl c' where "DnsCache_lookup L c n t t1 t2 = (Some (map (\<lambda>r. r\<lparr>rr_ttl := ttl\<rparr>) rs), c')"
    "(life - (t2 - t0)) div nanos \<le> unat ttl" "t0 \<le> t2 \<Longrightarrow> unat ttl \<le> unat (min_ttl rs)"
proof -
  obtain e where e: "map_of (view c) (CacheKey n t) = Some e" "entry_ok e"
    "map (rr_ttl_update (\<lambda>_. 0)) (e_records e) = map (rr_ttl_update (\<lambda>_. 0)) rs"
    "life \<le> e_ttl e - (t0 - inserted_at e)"
    "(e_ttl e - (t0 - inserted_at e)) div nanos \<le> unat (min_ttl rs)"
    using assms(2) unfolding kept_def life_def by blast
  have "\<not> is_expired e t1" using e(4) assms(3) by (simp add: is_expired_def)
  then have "fst (DnsCache_lookup L c n t t1 t2)
      = Some (map (\<lambda>r. r\<lparr>rr_ttl := remaining_ttl e t2\<rparr>) rs)"
    using same_but_ttl [OF e(3)] by (simp add: lookup_value e(1))
  moreover have ttl: "unat (remaining_ttl e t2) = (e_ttl e - (t2 - inserted_at e)) div nanos"
    using remaining_ttl_nat [of e t2] e(2) by (simp add: entry_ok_def)
  moreover have "life - (t2 - t0) \<le> e_ttl e - (t2 - inserted_at e)"
    using e(4) assms(3) by simp
  moreover have "e_ttl e - (t2 - inserted_at e) \<le> e_ttl e - (t0 - inserted_at e)" if "t0 \<le> t2"
    using that by simp
  ultimately show ?thesis
    using e(5) by (intro that [of "remaining_ttl e t2" "snd (DnsCache_lookup L c n t t1 t2)"])
      (auto intro: div_le_mono order_trans simp: prod_eq_iff)
qed

end

text \<open>A lookup, with the state it leaves.\<close>

lemma lookupR_then:
  fixes s :: "'c rstate" and X :: resolver
  defines "t1 \<equiv> w_instant (r_world X) (tick s)" and "t2 \<equiv> w_instant (r_world X) (tick s + 1)"
  assumes "DnsCache_lookup L (sharedR L X (s\<lparr>tick := tick s + 2\<rparr>)) n t t1 t2 = (hit, c)"
  shows "lookupR L X n t s = (Some (Ok hit), s\<lparr>tick := tick s + 2, cache := c,
    history := recordR X (Lookup n t t1 t2) (s\<lparr>tick := tick s + 2\<rparr>)\<rparr>)"
  using assms by (simp add: lookupR_def matchR_def)

text \<open>A question no zone answers, with the cache hit and missed.\<close>

lemma resolve_hit:
  "zone_result (r_zones X) n t = NotFound \<Longrightarrow>
   (lookupR L X n t :: (DnsRecord list option, ResponseCode, 'c) comp) s = (Some (Ok (Some rs)), s') \<Longrightarrow>
   resolve L X fuel n t s = (Some (Ok rs), s')"
  by (simp only: resolve_def ZoneResult.case matchR_Ok option.case retR_def)

lemma resolve_miss:
  "zone_result (r_zones X) n t = NotFound \<Longrightarrow>
   (lookupR L X n t :: (DnsRecord list option, ResponseCode, 'c) comp) s = (Some (Ok None), s') \<Longrightarrow>
   resolve L X fuel n t s =
     bindR (if t \<noteq> RecordType.CNAME then lookupR L X n RecordType.CNAME else retR None)
      (\<lambda>alias. case alias of
         Some cnames \<Rightarrow> follow_cname_chain (resolve_recursive L X fuel 1) cnames t
       | None \<Rightarrow> resolve_recursive L X fuel 0 n t) s'"
  by (simp only: resolve_def ZoneResult.case matchR_Ok option.case)

context answering
begin

text \<open>Once the cache was missed, the answer is found through a cached alias or the network.\<close>

lemma missed_stored:
  assumes "safe (cache s) (history s)"
    and "bindR (if t \<noteq> RecordType.CNAME then lookupR L X n RecordType.CNAME else retR None)
      (\<lambda>alias. case alias of
         Some cnames \<Rightarrow> follow_cname_chain (resolve_recursive L X fuel 1) cnames t
       | None \<Rightarrow> resolve_recursive L X fuel 0 n t) s = (Some (Ok rs), s1)"
  shows "stored L X n t rs s1"
proof (cases "t = RecordType.CNAME")
  case True
  then have "resolve_recursive L X fuel 0 n t s = (Some (Ok rs), s1)"
    using assms(2) by (simp add: matchR_def retR_def)
  then show ?thesis by (rule postD [OF resolve_recursive_stored])
next
  case False
  obtain hit s2 where l: "lookupR L X n RecordType.CNAME s
      = ((Some (Ok hit) :: (DnsRecord list option, ResponseCode) res option), s2)"
    by (metis lookupR_then prod.exhaust)
  have typed: "typed RecordType.CNAME cnames" if "hit = Some cnames" for cnames
    using runsD(2) [OF lookupR_keeps assms(1) l] that by simp
  show ?thesis
  proof (cases hit)
    case None
    then have "resolve_recursive L X fuel 0 n t s2 = (Some (Ok rs), s1)"
      using assms(2) False l by (simp add: matchR_def)
    then show ?thesis by (rule postD [OF resolve_recursive_stored])
  next
    case (Some cnames)
    then have f: "follow_cname_chain (resolve_recursive L X fuel 1) cnames t s2 = (Some (Ok rs), s1)"
      using assms(2) False l by (simp add: matchR_def)
    have "cnames \<noteq> []" using f by (auto simp: follow_cname_chain_def last_target_def failR_def)
    moreover have "\<forall>r \<in> set cnames. rr_type r \<noteq> t"
      using typed [OF Some] False by (simp add: typed_def)
    ultimately show ?thesis using f by (rule postD [OF follow_stored])
  qed
qed

lemma resolve_kept:
  assumes "safe (cache s) (history s)" "zone_result (r_zones X) n t = NotFound"
    and "resolve L X fuel n t s = (Some (Ok rs), s1)"
    and "rs \<noteq> []" "\<forall>r \<in> set rs. rr_type r = t" "min_ttl rs \<noteq> 0"
  shows "kept view n t rs (w_instant (r_world X) (tick s1 - 1)) (cache s1)"
proof -
  let ?s = "s\<lparr>tick := tick s + 2\<rparr>"
  let ?t1 = "w_instant (r_world X) (tick s)" and ?t2 = "w_instant (r_world X) (tick s + 1)"
  obtain hit c where d: "DnsCache_lookup L (sharedR L X ?s) n t ?t1 ?t2 = (hit, c)" by fastforce
  define s2 where "s2 = ?s\<lparr>cache := c, history := recordR X (Lookup n t ?t1 ?t2) ?s\<rparr>"
  have l: "lookupR L X n t s = ((Some (Ok hit) :: (DnsRecord list option, ResponseCode) res option), s2)"
    using lookupR_then [OF d] by (simp add: s2_def)
  have safe: "safe (cache ?s) (history ?s)" using assms(1) by simp
  show ?thesis
  proof (cases hit)
    case (Some rs')
    then have "rs' = rs" "s1 = s2"
      using resolve_hit [OF assms(2) l [unfolded Some], of fuel] assms(3) by simp_all
    moreover have "cache_inv (sharedR L X ?s)"
      using clean_shared [OF safe] by (simp add: clean_def)
    ultimately show ?thesis using kept_lookup d Some by (simp add: s2_def)
  next
    case None
    have s2: "safe (cache s2) (history s2)" using runsD(1) [OF lookupR_keeps assms(1)] l by (metis snd_conv)
    have "stored L X n t rs s1"
      by (rule missed_stored [OF s2, of t n fuel])
        (use resolve_miss [OF assms(2) l [unfolded None], of fuel] assms(3) in \<open>simp only:\<close>)
    then obtain c0 where c0: "cache s1 = DnsCache_insert L c0 n t rs (w_instant (r_world X) (tick s1 - 1))"
      using assms(4,5) by (auto simp: stored_def just_inserted_def)
    have "safe (cache s1) (history s1)"
      using runsD(1) [OF resolve_keeps assms(1)] assms(3) by (metis snd_conv)
    then have "0 < cap (cache s1)" using safe_clean by (fastforce simp: clean_def)
    then have "0 < cap c0" using cap_step [of c0 "Insert n t rs _"] by (simp add: c0)
    then show ?thesis using kept_insert assms(4,6) by (simp add: c0)
  qed
qed

lemma resolve_again:
  fixes rs :: "DnsRecord list"
  defines "life \<equiv> min (unat (min_ttl rs)) 86400 * nanos"
  assumes "safe (cache s) (history s)" "zone_result (r_zones X) n t = NotFound"
    and "resolve L X fuel n t s = (Some (Ok rs), s1)"
    and "rs \<noteq> []" "\<forall>r \<in> set rs. rr_type r = t" "min_ttl rs \<noteq> 0"
    and "list_all (looks_elsewhere n t) (w_others (r_world X) (tick s1 + 2))"
    and "w_instant (r_world X) (tick s1) - w_instant (r_world X) (tick s1 - 1) < life"
  obtains ttl s2 where
    "resolve L X fuel' n t s1 = (Some (Ok (map (\<lambda>r. r\<lparr>rr_ttl := ttl\<rparr>) rs)), s2)"
    "tick s2 = tick s1 + 2"
    "(life - (w_instant (r_world X) (tick s1 + 1) - w_instant (r_world X) (tick s1 - 1))) div nanos
       \<le> unat ttl"
    "w_instant (r_world X) (tick s1 - 1) \<le> w_instant (r_world X) (tick s1 + 1) \<Longrightarrow>
       unat ttl \<le> unat (min_ttl rs)"
proof -
  let ?W = "r_world X" and ?s = "s1\<lparr>tick := tick s1 + 2\<rparr>"
  have "kept view n t rs (w_instant ?W (tick s1 - 1)) (sharedR L X ?s)"
    unfolding sharedR_def by (rule kept_others) (use assms(8) resolve_kept [OF assms(2-7)] in simp_all)
  from lookup_kept [OF this, of "w_instant ?W (tick s1)" "w_instant ?W (tick s1 + 1)"] assms(9)
  obtain ttl c where
    l: "DnsCache_lookup L (sharedR L X ?s) n t (w_instant ?W (tick s1)) (w_instant ?W (tick s1 + 1))
      = (Some (map (\<lambda>r. r\<lparr>rr_ttl := ttl\<rparr>) rs), c)"
    and ttl: "(life - (w_instant ?W (tick s1 + 1) - w_instant ?W (tick s1 - 1))) div nanos \<le> unat ttl"
      "w_instant ?W (tick s1 - 1) \<le> w_instant ?W (tick s1 + 1) \<Longrightarrow> unat ttl \<le> unat (min_ttl rs)"
    unfolding life_def by metis
  have "resolve L X fuel' n t s1 = (Some (Ok (map (\<lambda>r. r\<lparr>rr_ttl := ttl\<rparr>) rs)),
      ?s\<lparr>cache := c, history := recordR X (Lookup n t (w_instant ?W (tick s1)) (w_instant ?W (tick s1 + 1))) ?s\<rparr>)"
    by (rule resolve_hit [OF assms(3) lookupR_then [OF l]])
  then show ?thesis by (rule that) (use ttl in simp_all)
qed

end

end
