(* ===== verification/Samples.thy ===== *)
theory Samples
  imports Cached
begin

text \<open>
  Small networks for the examples: one on which every server gives the same reply, and one on
  which none gives any.
\<close>

section \<open>Every server gives the same reply\<close>

definition steady_world :: "DnsMessage \<Rightarrow> world" where
  "steady_world m =
     loop_world\<lparr>w_recv := \<lambda>_ _ a. Datagram (DnsMessage_serialize m) a, w_unix := \<lambda>_ _. - 1\<rparr>"

definition steady_resolver :: "bool \<Rightarrow> DnsMessage \<Rightarrow> resolver" where
  "steady_resolver dnssec m = loop_resolver\<lparr>r_dnssec := dnssec, r_world := steady_world m\<rparr>"

lemma steady_fields:
  "r_world (steady_resolver b m) = steady_world m" "r_unicode (steady_resolver b m) = plain"
  "r_zones (steady_resolver b m) = []" "r_dnssec (steady_resolver b m) = b"
  "w_bind (steady_world m) k" "w_send (steady_world m) k q a" "w_random16 (steady_world m) k = 0"
  "w_random64 (steady_world m) k = 0" "w_instant (steady_world m) k = 0" "w_others (steady_world m) k = []"
  "w_unix (steady_world m) k j = - 1"
  "w_recv (steady_world m) k q a = Datagram (DnsMessage_serialize m) a"
  by (simp_all add: steady_resolver_def loop_resolver_def steady_world_def loop_world_def)

lemma steady_sound: "sound_setting (steady_resolver b m)"
  by (simp add: sound_setting_def steady_fields)

lemma steady_offsets:
  "k \<noteq> 0 \<Longrightarrow> ns_offsets (steady_resolver b m) k is s =
     (Some (Ok (map (\<lambda>i. unat (of_nat i :: u64) mod k) is)), s\<lparr>tick := tick s + length is\<rparr>)"
  by (induction "is" arbitrary: s) (simp_all add: retR_def matchR_def steady_fields)

lemma steady_query:
  assumes "wf_message plain m" "length (DnsMessage_serialize m) \<le> 4096" "h_id (header m) = 0"
    "\<not> truncated (header m)"
  shows "query_nameservers (steady_resolver b m) n t (a # as) s =
    (Some (Ok (m\<lparr>header := header_with_counts m\<rparr>)), s\<lparr>tick := tick s + 7\<rparr>)"
proof -
  have u: "[0..<MAX_RETRIES] = [0, 1, 2]" by (simp add: MAX_RETRIES_def upt_rec)
  have p: "DnsMessage_parse plain (DnsMessage_serialize m) = Ok (m\<lparr>header := header_with_counts m\<rparr>)"
    using DnsMessage_read_back [OF assms(1), of "[]"] by (simp add: DnsMessage_parse_def)
  have h: "h_id (header_with_counts m) = 0" "\<not> truncated (header_with_counts m)"
    using assms(3,4) by (simp_all add: header_with_counts_def)
  show ?thesis
    by (simp add: query_nameservers_def matchR_def steady_offsets u Let_def steady_fields
        assms(2) p h retR_def)
qed

text \<open>The first round of a resolution, when the reply has answers.\<close>

lemma steady_resolves:
  fixes s :: "(nat \<times> (CacheKey \<times> CacheEntry) list) rstate"
  assumes "wf_message plain m" "length (DnsMessage_serialize m) \<le> 4096" "h_id (header m) = 0"
    "\<not> truncated (header m)" "response_code (header m) = NoError" "answers m \<noteq> []"
    and "cache s = DnsCache_new list_lru 2" "t \<noteq> RecordType.CNAME"
  shows "resolve list_lru (steady_resolver b m) (Suc fuel) n t s =
    process_answers list_lru (steady_resolver b m) (resolve_recursive list_lru (steady_resolver b m) (Suc fuel) 1)
      n t (m\<lparr>header := header_with_counts m\<rparr>)
      (s\<lparr>history := history s @ [Lookup n t 0 0, Lookup n RecordType.CNAME 0 0], tick := 11 + tick s\<rparr>)"
proof -
  obtain a as where ns: "root_servers = Some (a # as)"
    using root_servers_some by (auto simp: neq_Nil_conv)
  have miss: "lookupR list_lru (steady_resolver b m) n' t' s =
      (Some (Ok None) :: (DnsRecord list option, ResponseCode) res option,
       s\<lparr>tick := tick s + 2, history := history s @ [Lookup n' t' 0 0]\<rparr>)"
    if "cache s = DnsCache_new list_lru 2" for n' t'
      and s :: "(nat \<times> (CacheKey \<times> CacheEntry) list) rstate"
    using that by (cases s) (simp add: recordR_def lookupR_def matchR_def sharedR_def steady_fields
        cache_run_def DnsCache_lookup_def DnsCache_new_def list_lru_def)
  have z: "zone_result (r_zones (steady_resolver b m)) n t = NotFound"
    by (simp add: steady_fields zone_result_def ZoneStore_lookup_def find_zone_def)
  have q: "query_nameservers (steady_resolver b m) n t (a # as) s' =
      (Some (Ok (m\<lparr>header := header_with_counts m\<rparr>)), s'\<lparr>tick := tick s' + 7\<rparr>)"
    for s' :: "(nat \<times> (CacheKey \<times> CacheEntry) list) rstate"
    by (rule steady_query [OF assms(1-4)])
  have c: "response_code (header_with_counts m) = NoError"
    using assms(5) by (simp add: header_with_counts_def)
  show ?thesis
    using assms(8)
    by (simp add: resolve_miss [OF z miss [OF assms(7)]] matchR_Ok [OF miss] assms(7)
        resolve_recursive_step [OF ns] matchR_Ok [OF q] c assms(6))
qed

text \<open>An address, and a key with a signature made with it, for the root.\<close>

definition reply_of :: "DnsRecord list \<Rightarrow> DnsMessage" where
  "reply_of rs = \<lparr>header = (DnsHeader_new_query 0)\<lparr>is_response := True\<rparr>, questions = [],
     answers = rs, authorities = [], additional = []\<rparr>"

definition address_records :: "DnsRecord list" where
  "address_records = [DnsRecord_new DnsName_root RecordType.A 60 (RData.A server_a)]"

definition signed_records :: "DnsRecord list" where
  "signed_records = [example_key, example_sig (compute_key_tag example_key)]"

lemmas reply_defs = reply_of_def address_records_def signed_records_def example_key_def
  example_sig_def DnsRecord_new_def DnsHeader_new_query_def server_a_def

lemma wf_replies: "wf_message plain (reply_of address_records)" "wf_message plain (reply_of signed_records)"
  by (simp_all add: reply_defs wf_message_def wf_header_def wf_record_def canonical_type_def
      canonical_class_def RecordType_from_u16_def RecordClass_from_u16_def OpCode_from_u8_def
      ResponseCode_from_u8_def wf_name_def DnsName_root_def DnsName_to_wire_def)

lemma short_replies: "length (DnsMessage_serialize (reply_of address_records)) \<le> 4096"
  "length (DnsMessage_serialize (reply_of signed_records)) \<le> 4096"
  by (simp_all add: reply_defs DnsMessage_serialize_def DnsRecord_serialize_def Let_def
      DnsName_to_wire_def DnsName_root_def)

lemma reply_of_fields: "h_id (header (reply_of rs)) = 0" "\<not> truncated (header (reply_of rs))"
  "response_code (header (reply_of rs)) = NoError" "answers (reply_of rs) = rs"
  "authorities (reply_of rs) = []" "additional (reply_of rs) = []"
  by (simp_all add: reply_of_def DnsHeader_new_query_def)

text \<open>The address is found, cached and returned; checking the signature panics under a clock before
  the epoch.\<close>

lemma address_found:
  "\<exists>s'. resolve list_lru (steady_resolver False (reply_of address_records)) 1 DnsName_root
      RecordType.A (fresh_state list_lru 2) = (Some (Ok address_records), s') \<and> tick s' = 12 \<and> length (history s') = 3"
proof -
  let ?m = "reply_of address_records" and ?s = "fresh_state list_lru 2"
  have c: "cache ?s = DnsCache_new list_lru 2" "RecordType.A \<noteq> RecordType.CNAME"
    "answers ?m \<noteq> []" by (simp_all add: fresh_state_def reply_of_fields address_records_def)
  have o: "of_type RecordType.A address_records = address_records" "address_records \<noteq> []"
    by (simp_all add: of_type_def address_records_def DnsRecord_new_def)
  show ?thesis
    using steady_resolves [OF wf_replies(1) short_replies(1) reply_of_fields(1-3) c(3,1,2),
        of False 0 DnsName_root] o
    by (simp add: process_answers_def Let_def steady_fields matchR_def retR_def
        insertR_then reply_of_fields fresh_state_def recordR_def)
qed

lemma clock_panic_found:
  "\<exists>s'. resolve list_lru (steady_resolver True (reply_of signed_records)) 1 DnsName_root
      RecordType.DNSKEY (fresh_state list_lru 2) = (Some Panic, s')"
proof -
  let ?m = "reply_of signed_records" and ?s = "fresh_state list_lru 2"
  have c: "cache ?s = DnsCache_new list_lru 2" "RecordType.DNSKEY \<noteq> RecordType.CNAME"
    "answers ?m \<noteq> []" by (simp_all add: fresh_state_def reply_of_fields signed_records_def)
  have l: "sigs_of signed_records = [example_sig (compute_key_tag example_key)]"
    "keys_of signed_records = [example_key]"
    by (simp_all add: sigs_of_def keys_of_def signed_records_def example_sig_def example_key_def
        DnsRecord_new_def)
  have v: "validate_response C (\<lambda>_. - 1) signed_records = Panic" for C
    by (simp add: validate_response_cases l)
      (simp add: example_sig_def example_key_def DnsRecord_new_def verify_rrsig_def unix_seconds_def)
  have w: "w_unix (steady_world ?m) k = (\<lambda>_. - 1)" for k
    by (simp add: steady_world_def)
  show ?thesis
    using steady_resolves [OF wf_replies(2) short_replies(2) reply_of_fields(1-3) c(3,1,2),
        of True 0 DnsName_root]
    by (simp add: process_answers_def Let_def steady_fields matchR_def validateR_def
        response_records_def reply_of_fields w v panicR_def)
qed

section \<open>No server gives any\<close>

definition silent_world :: world where
  "silent_world = loop_world\<lparr>w_recv := \<lambda>_ _ _. Timeout\<rparr>"

lemma silent_from_start: "silent_from 0 silent_world"
  by (simp add: silent_from_def silent_world_def)

lemma silent_try:
  "r_world X = silent_world \<Longrightarrow> \<forall>i \<in> set os. i < length nss \<Longrightarrow>
   \<exists>s'. try_nameservers X n t nss i q os s = (Some (Err ServerFailure), s')"
  by (induction os arbitrary: s)
    (simp_all add: failR_def Let_def matchR_def silent_world_def loop_world_def)

lemma silent_offsets:
  "k \<noteq> 0 \<Longrightarrow> r_world X = silent_world \<Longrightarrow> ns_offsets X k is s =
     (Some (Ok (map (\<lambda>i. unat (of_nat i :: u64) mod k) is)), s\<lparr>tick := tick s + length is\<rparr>)"
  by (induction "is" arbitrary: s) (simp_all add: retR_def matchR_def silent_world_def loop_world_def)

lemma silent_query:
  assumes "r_world X = silent_world" "nss \<noteq> []"
  shows "\<exists>s'. query_nameservers X n t nss s = (Some (Err ServerFailure), s')"
proof -
  have b: "w_bind silent_world k" "w_random16 silent_world k = 0" for k
    by (simp_all add: silent_world_def loop_world_def)
  define os where "os = map (\<lambda>i. unat (of_nat i :: u64) mod length nss) [0..<MAX_RETRIES]"
  have "\<forall>i \<in> set os. i < length nss" using assms(2) by (auto simp: os_def)
  note t = silent_try [OF assms(1) this]
  have o: "ns_offsets X (length nss) [0..<MAX_RETRIES] s =
      (Some (Ok os), s\<lparr>tick := tick s + length [0..<MAX_RETRIES]\<rparr>)" for s :: "'a rstate"
    unfolding os_def by (rule silent_offsets [OF _ assms(1)]) (use assms(2) in simp)
  show ?thesis
    using t by (simp add: query_nameservers_def Let_def assms(1) b matchR_Ok [OF askR_run] matchR_Ok [OF o])
qed

text \<open>A resolver without zones there fails.\<close>

definition silent_resolver :: resolver where
  "silent_resolver = loop_resolver\<lparr>r_world := silent_world\<rparr>"

lemma silent_fails:
  "\<exists>s'. resolve list_lru silent_resolver 1 n RecordType.A (fresh_state list_lru 2)
     = (Some (Err ServerFailure), s')"
proof -
  let ?X = silent_resolver
  have w: "r_world ?X = silent_world" by (simp add: silent_resolver_def)
  obtain ns where ns: "root_servers = Some ns" "ns \<noteq> []" using root_servers_some by blast
  have miss: "lookupR list_lru ?X n' t' s = (Some (Ok None) :: (DnsRecord list option, ResponseCode) res option,
       s\<lparr>tick := tick s + 2, history := history s @ [Lookup n' t' 0 0]\<rparr>)"
    if "cache s = DnsCache_new list_lru 2" for n' t'
      and s :: "(nat \<times> (CacheKey \<times> CacheEntry) list) rstate"
    using that by (cases s) (simp add: recordR_def lookupR_def matchR_def sharedR_def w silent_world_def
        loop_world_def cache_run_def DnsCache_lookup_def DnsCache_new_def list_lru_def)
  have z: "zone_result (r_zones ?X) n RecordType.A = NotFound"
    by (simp add: silent_resolver_def loop_resolver_def zone_result_def ZoneStore_lookup_def find_zone_def)
  have c: "cache (fresh_state list_lru 2) = DnsCache_new list_lru 2" by (simp add: fresh_state_def)
  have "\<forall>s :: (nat \<times> (CacheKey \<times> CacheEntry) list) rstate.
      \<exists>s'. query_nameservers ?X n RecordType.A ns s = (Some (Err ServerFailure), s')"
    by (rule allI) (rule silent_query [OF w ns(2)])
  then obtain f where q: "query_nameservers ?X n RecordType.A ns s = (Some (Err ServerFailure), f s)"
    for s :: "(nat \<times> (CacheKey \<times> CacheEntry) list) rstate" by metis
  show ?thesis
    by (simp add: resolve_miss [OF z miss [OF c]] matchR_Ok [OF miss] c
        resolve_recursive_step [OF ns(1)] matchR_Err [OF q] failR_def)
qed

end
