(* ===== verification/Spec2Isabelle.thy ===== *)
theory Spec2Isabelle
  imports Service Samples
begin

text \<open>
  A verification of the DNS server of this repository: a recursive resolver with a cache, local
  zones and DNSSEC validation, served over UDP, TCP and HTTPS.

  \<^bold>\<open>The program and its model.\<close> Every source file has a theory, with one definition per function,
  named after it (\<open>DnsName::parse\<close> is \<open>DnsName_parse\<close>; a loop is a function of its own, its
  variables as arguments).

  \<^item> \<open>Prelude\<close>: machine integers (words of 8, 16, 32 and 64 bits, wrapping as in the release
    profile), the outcomes of a fallible call (\<open>Ok\<close>, \<open>Err\<close>, \<open>Panic\<close>), parsers as functions of the
    offset, with a weakest-precondition calculus (\<open>wpP\<close>) for their contracts. \<open>Rust_Str\<close> and \<open>Rust_Net\<close>:
    what the program uses of \<open>str\<close> and of the addresses of \<open>std::net\<close>, with their parsers.
  \<^item> \<open>Codec\<close>: the contracts between layers of the wire format, as the locales \<open>decoder\<close>,
    \<open>sized_decoder\<close> and \<open>codec\<close>, interpreted on the parsers and writers of each layer.
  \<^item> \<open>Error\<close>, \<open>Name\<close>, \<open>Rdata\<close>, \<open>Dns_Record\<close>, \<open>Question\<close>, \<open>Header\<close>, \<open>Message\<close>: \<open>src/dns/*.rs\<close>.
  \<^item> \<open>Lru\<close>, \<open>Cache\<close>: \<open>src/cache/mod.rs\<close> over the \<open>lru\<close> crate, which is a parameter with the contract
    \<open>lru_store\<close>; the cache is the locale \<open>dns_cache\<close> over any such store.
  \<^item> \<open>Zone\<close>: \<open>src/zone/mod.rs\<close>. \<open>Dnssec\<close>: \<open>src/dnssec/mod.rs\<close>, the primitives of the \<open>ring\<close> crate as a
    parameter.
  \<^item> \<open>Effects\<close>: the state of a task (the cache, and the position in the environment's script) and
    computations on it. \<open>Resolver\<close>: \<open>src/resolver/mod.rs\<close>. \<open>Answering\<close>: the contract of the
    resolver, as the locale \<open>answering\<close>, a client of \<open>dns_cache\<close>. \<open>Queries\<close>: what it sends, and what it
    takes for the answer. \<open>Aliases\<close>: what following aliases makes of an answer. \<open>Cached\<close>: what an
    answer leaves in the cache. \<open>Fuel\<close>: when the referral loop ends. \<open>Samples\<close>: small networks, for
    examples.
  \<^item> \<open>Server\<close>: the tasks of \<open>src/server/mod.rs\<close>. \<open>Doh\<close>: \<open>src/doh/mod.rs\<close>. \<open>Startup\<close>: the
    configuration in \<open>src/main.rs\<close>. \<open>Service\<close>: the running server, a step relation over the events of
    its sockets (\<open>udp_event\<close>, \<open>tcp_event\<close>, \<open>doh_event\<close>) and the runs of its tasks.

  \<^bold>\<open>How the parts interact.\<close> A datagram, a connection or an HTTP request becomes a task, which parses
  a message, resolves its first question and writes a reply; the requests of an HTTP/1 connection are
  one task and handled in their order, each stream of an HTTP/2 connection is its own. The resolver looks into the zones,
  then into the cache, then asks name servers, and follows referrals and aliases; it shares only
  the cache with other tasks. Every access to the cache is under its lock, so what other tasks do
  comes between two accesses: \<open>w_others\<close> gives the operations they perform before each access of
  this task, and the ghost field \<open>history\<close> records all operations in order. The properties assume
  of the others that they insert genuine records under their type, and \<open>serving_invariant\<close> shows
  that of every operation in the history, those of the server's own tasks included.

  \<^bold>\<open>The environment.\<close> Network, clocks and random numbers are the record \<open>world\<close>: functions of the
  position of the interaction in the task's script and of what was sent. No assumption is made on
  it but where a property says so: a datagram carries any bytes and any sender address, instants may
  be anything (\<open>Instant\<close> subtraction saturates), and the system clock is an integer of seconds that
  may lie before 1970, where the signature check of the validator panics (\<open>clock_panics\<close>). Text that is not ASCII is lowered by a parameter (\<open>unicode\<close>).

  \<^bold>\<open>What is shown.\<close>
  \<^item> Wire format: messages, record data of all types, headers and names survive writing and
    reading; the name parser accepts exactly the names of \<open>name_at\<close> (which admits length bytes RFC 1035
    reserves, as the code does), stops on every pointer loop and never panics; when the parser of record
    data panics (\<open>RData_parse_panics\<close>); every parser stays in the packet; what the parser returns is
    bounded by the packet.
  \<^item> Names: limits, printing and parsing, case, the order of subdomains.
  \<^item> Cache: it refines a map that keeps the last insertion under each key; its invariant; time to live.
  \<^item> Zones: lookup answers with exactly the configured records, but for the start of authority and the
    name servers of the zone itself; the most specific zone is chosen.
  \<^item> DNSSEC: what each verdict means, what a signature covers, key tags, DS records.
  \<^item> Resolver: where every record of an answer comes from, how it fails, what configured zones answer
    without the network, that a question asked again is answered from the cache, what it sends and
    which reply it takes, that answers begin with their aliases, that it ends on a silent network and
    need not end on a hostile one.
  \<^item> Servers: replies belong to their queries, their size and framing, HTTP statuses, equivalence of
    the transports, the invariant of the running server, and that it answers what it received.

  Some of these are about what the code does where that is not what it means to do: the
  record data that panics (\<open>RData_parse_panics\<close>, with a whole packet in \<open>nsec_packet_panics\<close>), the clock
  before 1970, the endless referral (\<open>resolve_can_diverge\<close>), labels and
  names outside the limits (\<open>parse_accepts_long_label\<close>, \<open>new_accepts_empty_label\<close>), delegations in the
  answer for the apex (\<open>apex_ns_includes_delegations\<close>).

  \<^bold>\<open>Bounds and fuel.\<close> The recursion of the resolver is bounded by its depth, the chain of aliases by its
  length, the name parser by its count of pointers, as in the code. The referral loop has no
  bound in the code, so \<open>referral_loop\<close> takes fuel, one unit for each round, and gives \<open>None\<close> when it
  runs out; \<open>resolve_returns\<close> shows that more than \<open>T\<close> units are enough on a network that is silent from
  position \<open>T\<close> on, and \<open>resolve_fuel_irrelevant\<close> that more fuel never changes a result.

  \<^bold>\<open>Not modelled.\<close> Logging. The display of record data (\<open>fmt\<close> of \<open>RData\<close>), which nothing calls. The
  sockets, TLS, HTTP and PEM files, whose outcomes are parameters; the parsing of TOML, whose
  result is one. Inside a task, the accesses of other tasks are operations on the cache, not
  whole tasks interleaved step by step.
\<close>

section \<open>Shared facts\<close>

text \<open>A resolver with given zones on the network of \<open>loop_world\<close>, and its first state, for
  examples.\<close>

definition sample_resolver :: "Zone list \<Rightarrow> resolver" where
  "sample_resolver zs =
     loop_resolver\<lparr>r_zones := zs, r_world := loop_world\<lparr>w_write := \<lambda>_ _. True\<rparr>\<rparr>"

definition first_state :: "(nat \<times> (CacheKey \<times> CacheEntry) list) rstate" where
  "first_state = fresh_state list_lru 2"

lemma sample_sound: "list_all zone_typed zs \<Longrightarrow> sound_setting (sample_resolver zs)"
  by (simp add: sound_setting_def sample_resolver_def loop_resolver_def loop_world_def)

lemma first_served: "serves B list_lru X 2 first_state"
  unfolding first_state_def by (rule serves_start)

text \<open>The context of every query: a cache over a store that keeps its promises, typed zones,
  other tasks that insert genuine records, and a state reached by serving requests.\<close>

lemma resolve_in_service:
  assumes "lru_store L view cap" "sound_setting X" "serves B L X max_entries s"
  shows "resolve L X fuel n t s = (Some (Ok rs), s') \<Longrightarrow>
      \<forall>r \<in> set rs. origin X r \<and> (rr_type r = t \<or> rr_type r = RecordType.CNAME)"
    and "resolve L X fuel n t s = (Some (Err e), s') \<Longrightarrow> e = ServerFailure \<or> e = NameError"
    and "resolve L X fuel n t s = (Some Panic, s') \<Longrightarrow> parser_panics X \<or> clock_panics X"
proof -
  note a = answering_any [OF assms(1,2)]
  note c = answering.serves_safe [OF a assms(3)]
  note k = answering.resolve_keeps [OF a, of _ t fuel n]
  show "resolve L X fuel n t s = (Some (Ok rs), s') \<Longrightarrow>
      \<forall>r \<in> set rs. origin X r \<and> (rr_type r = t \<or> rr_type r = RecordType.CNAME)"
    using runsD(2) [OF k c] by (simp add: answering.answer_def [OF a])
  show "resolve L X fuel n t s = (Some (Err e), s') \<Longrightarrow> e = ServerFailure \<or> e = NameError"
    using runsD(5) [OF k c] by (simp add: fails_def)
  show "resolve L X fuel n t s = (Some Panic, s') \<Longrightarrow> parser_panics X \<or> clock_panics X"
    by (rule runsD(3) [OF k c])
qed

text \<open>What the invariant of the serving tasks says of the cache.\<close>

lemma start_sound:
  assumes "start_server L U C W read toml config = Ok (X, s)" "\<And>k. list_all (op_genuine X) (w_others W k)"
  shows "sound_setting X"
  using assms load_zones_typed by (fastforce simp: sound_setting_def start_server_def)

lemma safe_meaning:
  assumes "answering L view cap X (origin X) p" "answering.safe L (origin X) n c h"
  shows "c = cache_run L (DnsCache_new L n) h \<and> list_all (op_genuine X) h \<and>
    DnsCache_len L c \<le> (if n = 0 then 10000 else n) \<and>
    (\<forall>m t e. (CacheKey m t, e) \<in> set (view c) \<longrightarrow> entry_ok e \<and>
       (\<forall>r \<in> set (e_records e). origin X r \<and> rr_type r = t))"
proof -
  note a = assms(1)
  have d: "dns_cache L view cap" using a by (simp add: answering_def)
  then have l: "lru_store L view cap" by (simp add: dns_cache_def)
  have c: "cap c = (if n = 0 then 10000 else n)" "dns_cache.cache_inv view cap c"
    "\<forall>p \<in> set (view c). answering.cached_ok (origin X) p"
    using answering.safe_clean [OF a assms(2)] by (simp_all add: answering.clean_def [OF a])
  have "DnsCache_len L c \<le> cap c"
    using c(2) by (simp add: DnsCache_len_def lru_store.len_view [OF l]
        dns_cache.cache_inv_def [OF d] lru_store.lru_inv_def [OF l])
  moreover have "entry_ok e \<and> (\<forall>r \<in> set (e_records e). origin X r \<and> rr_type r = t)"
    if "(CacheKey m t, e) \<in> set (view c)" for m t e
    using c(2,3) that
    by (fastforce simp: dns_cache.cache_inv_def [OF d] answering.cached_ok_def [OF a])
  moreover have "answering.sound_op (origin X) = op_genuine X"
    by (rule ext) (simp add: answering.sound_op_def [OF a] answering.typed_def [OF a] op_genuine_def
        split: cache_op.splits)
  then have "c = cache_run L (DnsCache_new L n) h \<and> list_all (op_genuine X) h"
    using assms(2) by (simp add: answering.safe_def [OF a])
  ultimately show ?thesis unfolding c(1) by blast
qed

text \<open>A zone \<open>e\<close> with nothing but its start of authority, and a query for its texts.\<close>

definition bare_zone :: Zone where
  "bare_zone =
     \<lparr>z_name = DnsName [[101]],
      z_soa = DnsRecord_new (DnsName [[101]]) RecordType.SOA 60
        (RData.SOA DnsName_root DnsName_root 1 2 3 4 5),
      z_records = [], z_ns_records = []\<rparr>"

definition sample_query :: DnsMessage where
  "sample_query = DnsMessage_new_query 7\<lparr>questions :=
     [DnsQuestion_new (DnsName [[101]]) RecordType.TXT]\<rparr>"

lemma bare_sound: "sound_setting (sample_resolver [bare_zone])"
  by (rule sample_sound) (simp add: zone_typed_def bare_zone_def DnsRecord_new_def)

lemma sample_writes: "w_write (r_world (sample_resolver zs)) k q"
  by (simp add: sample_resolver_def)

lemma sample_unicode: "r_unicode (sample_resolver zs) = plain"
  by (simp add: sample_resolver_def loop_resolver_def)

lemma bare_resolves:
  "resolve list_lru (sample_resolver [bare_zone]) fuel (DnsName [[101]]) RecordType.TXT s
    = (Some (Ok []), s)"
  by (simp add: resolve_def zone_result_def ZoneStore_lookup_def find_zone_def Zone_contains_def
      Zone_lookup_def has_name_def sample_resolver_def bare_zone_def retR_def)

lemma wf_sample_query: "wf_message plain sample_query"
  by (simp add: sample_query_def wf_message_def DnsMessage_new_query_def wf_header_def
      DnsHeader_new_query_def OpCode_from_u8_def ResponseCode_from_u8_def wf_question_def
      DnsQuestion_new_def canonical_type_def canonical_class_def RecordType_from_u16_def
      RecordClass_from_u16_def wf_name_def wf_label_def ascii_valid_utf8 is_ascii_def
      to_lowercase_def ascii_lower_def)

text \<open>The bytes of that query, and of the reply to it.\<close>

definition query_bytes :: bytes where
  "query_bytes = DnsMessage_serialize sample_query"

definition reply_message :: DnsMessage where
  "reply_message = answer_message (sample_query\<lparr>header := header_with_counts sample_query\<rparr>) NoError []"

lemma query_bytes_parsed:
  "DnsMessage_parse plain query_bytes = Ok (sample_query\<lparr>header := header_with_counts sample_query\<rparr>)"
  using DnsMessage_read_back [OF wf_sample_query, of "[]"] by (simp add: query_bytes_def DnsMessage_parse_def)

lemma query_bytes_length: "length query_bytes = 19" "take 4096 query_bytes = query_bytes"
  by (simp_all add: query_bytes_def sample_query_def DnsMessage_serialize_def DnsMessage_new_query_def
      DnsQuestion_serialize_def DnsQuestion_new_def DnsName_to_wire_def)

lemma reply_parsed:
  "DnsMessage_parse plain (DnsMessage_serialize reply_message)
    = Ok (reply_message\<lparr>header := header_with_counts reply_message\<rparr>)"
proof -
  have "wf_message plain reply_message"
    using wf_sample_query answer_message_head(2) [of "sample_query\<lparr>header := header_with_counts sample_query\<rparr>"
        NoError "[]"] good_codes(1)
    by (simp add: wf_message_def reply_message_def answer_message_def make_response_def good_code_def)
  from DnsMessage_read_back [OF this, of "[]"] show ?thesis by (simp add: DnsMessage_parse_def)
qed

lemma reply_length: "length (DnsMessage_serialize reply_message) = 19"
  by (simp add: reply_message_def answer_message_def make_response_def sample_query_def
      DnsMessage_serialize_def DnsMessage_new_query_def DnsQuestion_serialize_def DnsQuestion_new_def
      DnsName_to_wire_def)

lemma query_handled:
  "handle_query list_lru (sample_resolver [bare_zone]) 0 query_bytes s
    = (Some (Ok (DnsMessage_serialize reply_message)), s)"
  by (simp add: handle_query_def sample_unicode query_bytes_parsed Let_def retR_def matchR_def
      reply_message_def answer_message_def make_response_def)
    (simp add: sample_query_def DnsQuestion_new_def bare_resolves retR_def)

lemma query_answered:
  "udp_task list_lru (sample_resolver [bare_zone]) 0 query_bytes s
    = (Some (Ok (Some (DnsMessage_serialize reply_message))), s)"
  by (simp add: udp_task_def query_bytes_length matchR_def query_handled udp_limit_def reply_length)

section \<open>Properties\<close>

text \<open>
  C2. Answers are typed and never made up: in any state reached by serving requests, with other
  tasks using the cache in between, every record of an answer is a record of a configured zone or
  of a message that arrived, with its time to live or a lower one, and has the type asked for or
  is an alias.
\<close>

theorem resolve_answers:
  assumes "lru_store L view cap" "sound_setting X" "serves B L X max_entries s"
    and "resolve L X fuel n t s = (Some (Ok rs), s')"
  shows "\<forall>r \<in> set rs. origin X r \<and> (rr_type r = t \<or> rr_type r = RecordType.CNAME)"
  by (rule resolve_in_service(1) [OF assms])

text \<open>A zone of the example answers for its own name servers.\<close>

lemma sample_resolves:
  obtains z where "zone_typed z" "z_name z = DnsName [[101]]"
    "\<And>s. resolve list_lru (sample_resolver [z]) fuel (DnsName [[101]]) RecordType.NS s
       = (Some (Ok (z_ns_records z)), s)" "z_ns_records z \<noteq> []"
proof -
  obtain z where z: "Zone_from_config plain sample_zone = Ok z" "z_name z = DnsName [[101]]"
    "z_ns_records z \<noteq> []" using sample_zone_loads by auto
  have "ZoneStore_lookup [z] (DnsName [[101]]) RecordType.NS = Some (z_ns_records z)"
    using z by (simp add: ZoneStore_lookup_def find_zone_def Zone_contains_def Zone_lookup_def)
  then have "resolve list_lru (sample_resolver [z]) fuel (DnsName [[101]]) RecordType.NS s
      = (Some (Ok (z_ns_records z)), s)" for s
    by (simp add: resolve_def zone_result_def sample_resolver_def retR_def)
  then show ?thesis using that Zone_from_config_typed [OF z(1)] z by blast
qed

theorem resolve_answers_witness:
  "\<exists>z. \<forall>r \<in> set (z_ns_records z). origin (sample_resolver [z]) r \<and> z_ns_records z \<noteq> []"
proof -
  obtain z where z: "zone_typed z" "\<And>s. resolve list_lru (sample_resolver [z]) 0 (DnsName [[101]])
      RecordType.NS s = (Some (Ok (z_ns_records z)), s)" "z_ns_records z \<noteq> []"
    using sample_resolves by metis
  have "sound_setting (sample_resolver [z])" by (rule sample_sound) (simp add: z(1))
  from resolve_answers [OF ll.lru_store_axioms this first_served z(2)] z(3)
  show ?thesis by blast
qed

text \<open>
  C3. How a resolution fails: with no other code than server failure and name error; and it
  panics only if some message the network delivers makes the message parser panic, or if DNSSEC is
  on and some reading of the system clock lies before 1970.
\<close>

theorem resolve_failures:
  assumes "lru_store L view cap" "sound_setting X" "serves B L X max_entries s"
    and "resolve L X fuel n t s = (Some r, s')"
  shows "(r = Err e \<longrightarrow> e = ServerFailure \<or> e = NameError) \<and>
    (r = Panic \<longrightarrow> parser_panics X \<or> clock_panics X)"
  using resolve_in_service(2,3) [OF assms(1-3)] assms(4) by blast

theorem resolve_failures_witness:
  "(\<exists>e s'. resolve list_lru silent_resolver 1 DnsName_root RecordType.A first_state = (Some (Err e), s') \<and>
      (e = ServerFailure \<or> e = NameError)) \<and>
   (let X = steady_resolver True (reply_of signed_records) in
      (\<exists>s'. resolve list_lru X 1 DnsName_root RecordType.DNSKEY first_state = (Some Panic, s')) \<and>
      (parser_panics X \<or> clock_panics X))"
proof -
  have "sound_setting silent_resolver"
    by (simp add: sound_setting_def silent_resolver_def silent_world_def loop_resolver_def loop_world_def)
  moreover obtain s1 where e: "resolve list_lru silent_resolver 1 DnsName_root RecordType.A first_state
      = (Some (Err ServerFailure), s1)"
    using silent_fails unfolding first_state_def by metis
  ultimately have "ServerFailure = ServerFailure \<or> ServerFailure = NameError"
    using resolve_failures [OF ll.lru_store_axioms _ first_served] by blast
  moreover obtain s2 where p: "resolve list_lru (steady_resolver True (reply_of signed_records)) 1
      DnsName_root RecordType.DNSKEY first_state = (Some Panic, s2)"
    using clock_panic_found unfolding first_state_def by metis
  moreover from resolve_failures [OF ll.lru_store_axioms steady_sound first_served p]
  have "parser_panics (steady_resolver True (reply_of signed_records)) \<or>
      clock_panics (steady_resolver True (reply_of signed_records))" by simp
  ultimately show ?thesis using e by (auto simp: Let_def)
qed



text \<open>
  C5. The loop over referrals has no bound of its own: two name servers that refer to each other
  under two names keep it going, so that no amount of fuel gives a result.
\<close>

theorem resolve_can_diverge:
  "fst (resolve list_lru loop_resolver fuel n t first_state) = None"
proof -
  obtain a as where ns: "root_servers = Some (a # as)"
    using root_servers_some by (auto simp: neq_Nil_conv)
  have rec: "fst (resolve_recursive list_lru loop_resolver fuel 0 n t' s) = None"
    for t' and s :: "(nat \<times> (CacheKey \<times> CacheEntry) list) rstate"
    using loop_forever [of loop_resolver "[]" a]
    by (simp add: resolve_recursive_step [OF ns] loop_resolver_def)
  have miss: "lookupR list_lru loop_resolver m t' s =
      (Some (Ok None) :: (DnsRecord list option, ResponseCode) res option, s\<lparr>tick := tick s + 2, history := history s @ [Lookup m t' 0 0]\<rparr>)"
    if "cache s = DnsCache_new list_lru 2" for m t'
      and s :: "(nat \<times> (CacheKey \<times> CacheEntry) list) rstate"
    using that by (cases s) (simp add: recordR_def lookupR_def matchR_def sharedR_def loop_resolver_def loop_world_def
        cache_run_def DnsCache_lookup_def DnsCache_new_def list_lru_def)
  have none: "zone_result (r_zones loop_resolver) n t = NotFound"
    by (simp add: loop_resolver_def zone_result_def ZoneStore_lookup_def find_zone_def)
  show ?thesis
    using rec
    by (simp add: resolve_def none matchR_def miss first_state_def fresh_state_def retR_def)
qed

text \<open>
  Fuel is only a bound: once a resolution has a result, more fuel gives the same result and
  the same final state.
\<close>

theorem resolve_fuel_irrelevant:
  assumes "fst (resolve L X fuel n t s) \<noteq> None" "fuel \<le> fuel'"
  shows "resolve L X fuel' n t s = resolve L X fuel n t s"
  using resolve_approx [OF assms(2)] assms(1) unfolding approx_def by blast

theorem resolve_fuel_irrelevant_witness:
  "\<exists>z. resolve list_lru (sample_resolver [z]) 7 (DnsName [[101]]) RecordType.NS first_state =
    resolve list_lru (sample_resolver [z]) 0 (DnsName [[101]]) RecordType.NS first_state"
proof -
  obtain z where z: "\<And>s. resolve list_lru (sample_resolver [z]) 0 (DnsName [[101]])
      RecordType.NS s = (Some (Ok (z_ns_records z)), s)"
    using sample_resolves by metis
  show ?thesis by (rule exI [of _ z], rule resolve_fuel_irrelevant) (simp_all add: z)
qed

text \<open>Configured zones come first, without a look at the cache, the clock or the network.\<close>

lemma zones_answer_first:
  "ZoneStore_lookup (r_zones X) n t = Some rs \<Longrightarrow> resolve L X fuel n t s = (Some (Ok rs), s)"
  "find_zone (r_zones X) n = Some z \<Longrightarrow> has_name z n \<Longrightarrow> t \<noteq> RecordType.CNAME \<Longrightarrow>
   Zone_lookup z n t = None \<Longrightarrow> Zone_lookup z n RecordType.CNAME = None \<Longrightarrow>
   resolve L X fuel n t s = (Some (Ok []), s)"
  by (auto simp: resolve_def zone_result_def ZoneStore_lookup_def retR_def)

lemma start_zones:
  assumes "start_server L U C W read toml config = Ok (X, s0)" "zones_file config = Some f"
    "read f = Some content" "toml content = Ok defs" "z \<in> set (r_zones X)"
  obtains def where "def \<in> set defs" "Zone_from_config U def = Ok z" "r_unicode X = U"
proof -
  have "load_config U [] defs = (Ok (), r_zones X)" and U: "r_unicode X = U"
    using assms(1-4)
    by (auto simp: start_server_def load_zones_def split: prod.splits res.splits unit.splits)
  then have "list_all2 (\<lambda>def z. Zone_from_config U def = Ok z) defs (r_zones X)"
    by (simp add: load_config_Ok)
  from list_all2_right_set [OF this assms(5)] show ?thesis using that U by blast
qed

lemma wf_parsed:
  "wf_message U q \<Longrightarrow> DnsMessage_parse U (DnsMessage_serialize q) = Ok (q\<lparr>header := header_with_counts q\<rparr>)"
  using DnsMessage_read_back [of U q "[]"] by (simp add: DnsMessage_parse_def)

text \<open>The counts in the header of a query do not matter for its reply.\<close>

lemma answer_message_counts:
  "DnsMessage_serialize (answer_message (q\<lparr>header := header_with_counts q\<rparr>) code rs)
    = DnsMessage_serialize (answer_message q code rs)"
  by (simp add: DnsMessage_serialize_def answer_message_def make_response_def header_with_counts_def)

text \<open>A query resolved without the network, and the reply that fits in a datagram.\<close>

lemma direct_reply:
  assumes q: "wf_message (r_unicode X) q" "length (DnsMessage_serialize q) \<le> 4096"
    "questions q = DnsQuestion_new n t # qs"
    and r: "resolve L X fuel n t s = (Some (Ok rs), s)"
    and fits: "wf_message (r_unicode X) (answer_message q NoError rs)"
      "length (DnsMessage_serialize (answer_message q NoError rs)) \<le> 512"
  shows "\<exists>b m. udp_task L X fuel (DnsMessage_serialize q) s = (Some (Ok (Some b)), s) \<and>
    DnsMessage_parse (r_unicode X) b = Ok m \<and> echoes q m \<and> response_code (header m) = NoError \<and>
    answers m = rs"
proof -
  let ?q = "q\<lparr>header := header_with_counts q\<rparr>" and ?a = "answer_message q NoError rs"
  note same = answer_message_counts [of q NoError rs]
  have "handle_query L X fuel (DnsMessage_serialize q) s
      = (Some (Ok (DnsMessage_serialize (answer_message ?q NoError rs))), s)"
    by (simp add: handle_query_def wf_parsed [OF q(1)] q(3) Let_def DnsQuestion_new_def matchR_def r
        retR_def answer_message_def make_response_def)
  then have "udp_task L X fuel (DnsMessage_serialize q) s = (Some (Ok (Some (DnsMessage_serialize ?a))), s)"
    using q(2) fits(2) unfolding same by (simp add: udp_task_def matchR_def udp_limit_def)
  moreover note wf_parsed [OF fits(1)]
  moreover have "echoes q (?a\<lparr>header := header_with_counts ?a\<rparr>)"
    "response_code (header_with_counts ?a) = NoError" "answers ?a = rs"
    by (simp_all add: echoes_def answer_message_def make_response_def header_with_counts_def)
  ultimately show ?thesis by fastforce
qed

text \<open>
  C6. From the zone file to the reply: when the most specific loaded zone of a name is \<open>z\<close>, then
  \<open>z\<close> comes from a definition of the file, whose entries give records \<open>rs\<close>, one each. The zone's
  own records for a question are: for the name of the zone, its start of authority and, for type NS,
  all NS records of \<open>rs\<close>, those of delegations included; else the records of \<open>rs\<close> with the name and
  type, in the order of the file. If there are any, they are the answer. Otherwise: if the
  name is not the zone's nor a record's, or the question is for CNAME, the zone does not answer
  and the cache and the network are asked; else if there are aliases, they are followed; else the
  answer is no records. Answers with such records, or with none, are given in every state without
  touching the cache, the clocks or the network, and the client of a well-formed query over UDP
  reads those records in the reply, when they are well formed and the reply has at most 512 bytes.
\<close>

theorem zone_file_to_reply:
  assumes "start_server L U C W read toml config = Ok (X, s0)" "zones_file config = Some f"
    "read f = Some content" "toml content = Ok defs" "find_zone (r_zones X) n = Some z"
  shows "\<exists>def \<in> set defs. \<exists>rs. Zone_from_config U def = Ok z \<and>
    list_all2 (\<lambda>rec r. config_record U def (z_name z) rec = Ok r) (zd_records def) rs \<and>
    (let here = (\<lambda>t. filter (\<lambda>r. rr_name r = n \<and> rr_type r = t) rs);
         own = (if n = z_name z \<and> t = RecordType.SOA then [z_soa z]
                else if n = z_name z \<and> t = RecordType.NS then filter (\<lambda>r. rr_type r = RecordType.NS) rs
                else here t);
         result = zone_result (r_zones X) n t
     in result = (if own \<noteq> [] then Found own
          else if t = RecordType.CNAME \<or> (n \<noteq> z_name z \<and> n \<notin> rr_name ` set rs) then NotFound
          else if here RecordType.CNAME \<noteq> [] then FollowCname (here RecordType.CNAME)
          else NoData) \<and>
        (result = Found own \<or> result = NoData \<longrightarrow>
           resolve L X fuel n t s = (Some (Ok own), s) \<and>
           (wf_message U q \<and> length (DnsMessage_serialize q) \<le> 4096 \<and>
              questions q = DnsQuestion_new n t # qs \<and> wf_message U (answer_message q NoError own) \<and>
              length (DnsMessage_serialize (answer_message q NoError own)) \<le> 512 \<longrightarrow>
              (\<exists>b m. udp_task L X fuel (DnsMessage_serialize q) s = (Some (Ok (Some b)), s) \<and>
                 DnsMessage_parse U b = Ok m \<and> echoes q m \<and> response_code (header m) = NoError \<and>
                 answers m = own))))"
proof -
  have "z \<in> set (r_zones X)" using find_zone_Some [OF assms(5)] by blast
  from start_zones [OF assms(1-4) this] obtain def where
    def: "def \<in> set defs" "Zone_from_config U def = Ok z" and U: "r_unicode X = U" by blast
  from loaded_zone [OF def(2)] obtain rs where
    rs: "list_all2 (\<lambda>rec r. config_record U def (z_name z) rec = Ok r) (zd_records def) rs"
      "\<forall>n t. Zone_lookup z n t =
         (if t = RecordType.SOA \<and> n = z_name z then Some [z_soa z]
          else if t = RecordType.NS \<and> n = z_name z then found (filter (\<lambda>r. rr_type r = RecordType.NS) rs)
          else found (filter (\<lambda>r. rr_name r = n \<and> rr_type r = t) rs))"
      "\<forall>n. has_name z n \<longleftrightarrow> n = z_name z \<or> (\<exists>r \<in> set rs. rr_name r = n)"
    by (elim exE conjE) (rule that)
  define here where "here = (\<lambda>t. filter (\<lambda>r. rr_name r = n \<and> rr_type r = t) rs)"
  define own where "own = (if n = z_name z \<and> t = RecordType.SOA then [z_soa z]
    else if n = z_name z \<and> t = RecordType.NS then filter (\<lambda>r. rr_type r = RecordType.NS) rs
    else here t)"
  have look: "Zone_lookup z n t = found own" "Zone_lookup z n RecordType.CNAME = found (here RecordType.CNAME)"
    by (auto simp: rs(2) here_def own_def found_def)
  have result: "zone_result (r_zones X) n t = (if own \<noteq> [] then Found own
      else if t = RecordType.CNAME \<or> (n \<noteq> z_name z \<and> n \<notin> rr_name ` set rs) then NotFound
      else if here RecordType.CNAME \<noteq> [] then FollowCname (here RecordType.CNAME) else NoData)"
    using look by (auto simp: zone_result_def ZoneStore_lookup_def assms(5) found_def rs(3))
  have answer: "resolve L X fuel n t s = (Some (Ok own), s)"
    if "zone_result (r_zones X) n t = Found own \<or> zone_result (r_zones X) n t = NoData"
    using that result by (auto simp: resolve_def retR_def split: if_splits)
  have "\<exists>b m. udp_task L X fuel (DnsMessage_serialize q) s = (Some (Ok (Some b)), s) \<and>
      DnsMessage_parse U b = Ok m \<and> echoes q m \<and> response_code (header m) = NoError \<and> answers m = own"
    if "zone_result (r_zones X) n t = Found own \<or> zone_result (r_zones X) n t = NoData"
      "wf_message U q" "length (DnsMessage_serialize q) \<le> 4096" "questions q = DnsQuestion_new n t # qs"
      "wf_message U (answer_message q NoError own)"
      "length (DnsMessage_serialize (answer_message q NoError own)) \<le> 512"
    using direct_reply [of X q n t qs L fuel s own, unfolded U] answer [OF that(1)] that(2-6) by blast
  note reply = this
  have fold_here: "filter (\<lambda>r. rr_name r = n \<and> rr_type r = t) rs = here t" for t
    by (simp add: here_def)
  show ?thesis
    unfolding Let_def
    by (intro bexI [OF _ def(1)] exI [of _ rs] conjI [OF def(2)] conjI [OF rs(1)];
      unfold fold_here own_def [symmetric]) (use answer result reply in blast)
qed

text \<open>A query for the name servers of the delegation in the example zone.\<close>

definition delegation_query :: DnsMessage where
  "delegation_query = DnsMessage_new_query 7\<lparr>questions :=
     [DnsQuestion_new (DnsName [[115], [101]]) RecordType.NS]\<rparr>"

definition delegation :: DnsRecord where
  "delegation = DnsRecord_new (DnsName [[115], [101]]) RecordType.NS 60 (RData.NS (DnsName [[120]]))"

lemma wf_delegation: "wf_message plain delegation_query"
  "wf_message plain (answer_message delegation_query NoError [delegation])"
  by (simp_all add: delegation_query_def delegation_def answer_message_def make_response_def wf_message_def
      DnsMessage_new_query_def wf_header_def DnsHeader_new_query_def OpCode_from_u8_def
      ResponseCode_from_u8_def wf_question_def DnsQuestion_new_def canonical_type_def
      canonical_class_def RecordType_from_u16_def RecordClass_from_u16_def wf_name_def wf_label_def
      ascii_valid_utf8 is_ascii_def to_lowercase_def ascii_lower_def wf_record_def DnsRecord_new_def
      DnsName_to_wire_def)

lemma short_delegation: "length (DnsMessage_serialize delegation_query) \<le> 4096"
  "length (DnsMessage_serialize (answer_message delegation_query NoError [delegation])) \<le> 512"
  by (simp_all add: delegation_query_def delegation_def answer_message_def make_response_def
      DnsMessage_serialize_def DnsMessage_new_query_def DnsQuestion_serialize_def DnsQuestion_new_def
      DnsRecord_serialize_def DnsRecord_new_def DnsName_to_wire_def Let_def)

theorem zone_file_to_reply_witness:
  "\<exists>X s0 b m. start_server list_lru plain trusting loop_world (\<lambda>_. Some []) (\<lambda>_. Ok [sample_zone])
      (Config_default\<lparr>zones_file := Some []\<rparr>) = Ok (X, s0) \<and>
     udp_task list_lru X 0 (DnsMessage_serialize delegation_query) s0 = (Some (Ok (Some b)), s0) \<and>
     DnsMessage_parse plain b = Ok m \<and> answers m = [delegation]"
proof -
  let ?n = "DnsName [[115], [101]]"
  obtain z where z: "Zone_from_config plain sample_zone = Ok z" "z_name z = DnsName [[101]]"
    using sample_zone_loads by blast
  then have "load_config plain [] [sample_zone] = (Ok (), [z])" by simp
  then have "load_zones plain (\<lambda>_. Some []) (\<lambda>_. Ok [sample_zone]) (Config_default\<lparr>zones_file := Some []\<rparr>) = Ok [z]"
    by (simp add: load_zones_def del: load_config.simps split: prod.split res.split unit.split)
  then obtain X s0 where m: "start_server list_lru plain trusting loop_world (\<lambda>_. Some [])
      (\<lambda>_. Ok [sample_zone]) (Config_default\<lparr>zones_file := Some []\<rparr>) = Ok (X, s0)" "r_zones X = [z]"
    by (simp add: start_server_def)
  have f: "find_zone (r_zones X) ?n = Some z"
    by (simp add: m(2) z(2) find_zone_def Zone_contains_def is_subdomain_of_def)
  have pre: "zones_file (Config_default\<lparr>zones_file := Some []\<rparr>) = Some []"
    "(\<lambda>_. Some []) [] = Some ([] :: rstr)" "(\<lambda>_. Ok [sample_zone]) [] = (Ok [sample_zone] :: (ZoneDefinition list, rstr) res)"
    by simp_all
  note reply = zone_file_to_reply [OF m(1) pre f, where t = RecordType.NS and fuel = 0 and s = s0
      and q = delegation_query and qs = "[]"]
  have "rs = [DnsRecord_new (DnsName [[101]]) RecordType.NS 300 (RData.NS (DnsName [[110]])), delegation]"
    if "list_all2 (\<lambda>rec r. config_record plain sample_zone (z_name z) rec = Ok r) (zd_records sample_zone) rs"
    for rs
    using that unfolding z(2) delegation_def
    by (auto simp: sample_zone_def list_all2_Cons1 config_record_def Let_def config_name_def
        DnsName_new_def strip_suffix_def to_lowercase_def is_ascii_def ascii_lower_def lit_def
        RecordType_from_str_type_def to_uppercase_def ascii_upper_def config_rdata_def unwrap_or_def)
  then obtain rs where rs: "rs = [DnsRecord_new (DnsName [[101]]) RecordType.NS 300
      (RData.NS (DnsName [[110]])), delegation]"
    and r: "zone_result (r_zones X) ?n RecordType.NS = Found [delegation] \<longrightarrow>
      (\<exists>b m. udp_task list_lru X 0 (DnsMessage_serialize delegation_query) s0 = (Some (Ok (Some b)), s0) \<and>
         DnsMessage_parse plain b = Ok m \<and> answers m = [delegation])"
      "zone_result (r_zones X) ?n RecordType.NS = Found [delegation]"
    using reply z(2) wf_delegation short_delegation
    by (fastforce simp: Let_def delegation_def DnsRecord_new_def delegation_query_def)
  then show ?thesis using m(1) by blast
qed

text \<open>
  C7. Caching works: in any state reached by serving requests, let a question for a name no zone
  answers have been resolved, through the cache or the network, to some records, all of the type
  asked for and with a time to live that is not zero. Asked again when no more time than the
  least time to live (or a day) has passed, and when other tasks have at most looked up other
  questions in the cache since, it is answered with those records, after two readings of the clock
  and without a message to any name server. Their time to live is at least what is left of that
  time, and no more than it was if the clock did not go back.
\<close>

theorem resolve_asked_again:
  fixes rs :: "DnsRecord list"
  defines "life \<equiv> min (unat (min_ttl rs)) 86400 * nanos"
  assumes "lru_store L view cap" "sound_setting X" "serves B L X max_entries s"
    and "zone_result (r_zones X) n t = NotFound" "resolve L X fuel n t s = (Some (Ok rs), s1)"
    and "rs \<noteq> []" "\<forall>r \<in> set rs. rr_type r = t" "min_ttl rs \<noteq> 0"
    and "list_all (looks_elsewhere n t) (w_others (r_world X) (tick s1 + 2))"
    and "w_instant (r_world X) (tick s1) - w_instant (r_world X) (tick s1 - 1) < life"
  shows "\<exists>ttl s2. resolve L X fuel' n t s1 = (Some (Ok (map (\<lambda>r. r\<lparr>rr_ttl := ttl\<rparr>) rs)), s2) \<and>
    tick s2 = tick s1 + 2 \<and>
    (life - (w_instant (r_world X) (tick s1 + 1) - w_instant (r_world X) (tick s1 - 1))) div nanos
      \<le> unat ttl \<and>
    (w_instant (r_world X) (tick s1 - 1) \<le> w_instant (r_world X) (tick s1 + 1) \<longrightarrow>
      unat ttl \<le> unat (min_ttl rs))"
proof -
  note a = answering_any [OF assms(2,3)]
  note safe = answering.serves_safe [OF a assms(4)]
  show ?thesis
    by (rule answering.resolve_again [OF a safe assms(5-10) assms(11) [unfolded life_def], of fuel'])
      (auto simp: life_def)
qed

theorem resolve_asked_again_witness:
  "\<exists>s1 s2 ttl. let X = steady_resolver False (reply_of address_records) in
     resolve list_lru X 1 DnsName_root RecordType.A first_state = (Some (Ok address_records), s1) \<and> tick s1 = 12 \<and>
     resolve list_lru X 0 DnsName_root RecordType.A s1
       = (Some (Ok (map (\<lambda>r. r\<lparr>rr_ttl := ttl\<rparr>) address_records)), s2) \<and> tick s2 = 14 \<and> unat ttl = 60"
proof -
  let ?X = "steady_resolver False (reply_of address_records)"
  obtain s1 where s1: "resolve list_lru ?X 1 DnsName_root RecordType.A first_state
      = (Some (Ok address_records), s1)" "tick s1 = 12"
    using address_found unfolding first_state_def by blast
  have z: "zone_result (r_zones ?X) DnsName_root RecordType.A = NotFound"
    by (simp add: steady_fields zone_result_def ZoneStore_lookup_def find_zone_def)
  have m: "min_ttl address_records = 60" "address_records \<noteq> []" "\<forall>r \<in> set address_records. rr_type r = RecordType.A"
    by (simp_all add: address_records_def min_ttl_def DnsRecord_new_def)
  have w: "w_instant (r_world ?X) k = 0" "w_others (r_world ?X) k = []" for k
    by (simp_all add: steady_fields)
  have "\<exists>ttl s2. resolve list_lru ?X 0 DnsName_root RecordType.A s1
      = (Some (Ok (map (\<lambda>r. r\<lparr>rr_ttl := ttl\<rparr>) address_records)), s2) \<and> tick s2 = tick s1 + 2 \<and> unat ttl = 60"
    using resolve_asked_again [OF ll.lru_store_axioms steady_sound first_served z s1(1) m(2,3), of 0]
    by (fastforce simp: m(1) w simp del: map_eq_conv)
  then obtain ttl s2 where "resolve list_lru ?X 0 DnsName_root RecordType.A s1
      = (Some (Ok (map (\<lambda>r. r\<lparr>rr_ttl := ttl\<rparr>) address_records)), s2)" "tick s2 = tick s1 + 2" "unat ttl = 60"
    by blast
  then show ?thesis using s1 by (intro exI [of _ s1] exI [of _ s2] exI [of _ ttl]) (simp add: Let_def)
qed


text \<open>A server that answers one query from the network.\<close>

definition root_query :: DnsMessage where
  "root_query = DnsMessage_new_query 7\<lparr>questions := [DnsQuestion_new DnsName_root RecordType.A]\<rparr>"

lemma wf_root_query: "wf_message plain root_query"
  by (simp add: root_query_def wf_message_def DnsMessage_new_query_def wf_header_def
      DnsHeader_new_query_def OpCode_from_u8_def ResponseCode_from_u8_def wf_question_def
      DnsQuestion_new_def canonical_type_def canonical_class_def RecordType_from_u16_def
      RecordClass_from_u16_def wf_name_def DnsName_root_def)

lemma root_query_served:
  obtains b s' where "serve_one B list_lru (steady_resolver False (reply_of address_records)) 1
      (Udp (DnsMessage_serialize root_query)) first_state = (b, s')" "length (history s') = 3"
proof -
  let ?X = "steady_resolver False (reply_of address_records)" and ?d = "DnsMessage_serialize root_query"
  obtain s' where r: "resolve list_lru ?X 1 DnsName_root RecordType.A first_state
      = (Some (Ok address_records), s')" "length (history s') = 3"
    using address_found [folded first_state_def] by (elim exE conjE) (rule that)
  have "length ?d \<le> 4096"
    by (simp add: root_query_def DnsMessage_serialize_def DnsMessage_new_query_def
        DnsQuestion_serialize_def DnsQuestion_new_def DnsName_to_wire_def DnsName_root_def)
  then have "take 4096 ?d = ?d" by simp
  moreover have "questions root_query = [DnsQuestion_new DnsName_root RecordType.A]" "address_records \<noteq> []"
    by (simp_all add: root_query_def address_records_def)
  then obtain b0 where "handle_query list_lru ?X 1 ?d first_state = (Some (Ok b0), s')"
    using wf_parsed [OF wf_root_query] r(1)
    by (simp add: handle_query_def steady_fields Let_def matchR_def retR_def DnsQuestion_new_def)
  ultimately have "snd (udp_task list_lru ?X 1 ?d first_state) = s'"
    by (simp add: udp_task_def matchR_def)
  then have "snd (serve_one B list_lru ?X 1 (Udp ?d) first_state) = s'"
    by (cases "udp_task list_lru ?X 1 ?d first_state") (simp add: serve_one_def split: option.split res.split)
  then show ?thesis using r(2) that by (metis prod.collapse)
qed


text \<open>What is handled for a well-formed query, when nothing makes a task panic.\<close>

lemma query_always_handled:
  assumes "lru_store L view cap" "sound_setting X" "serves B L X max_entries s"
    and "silent_from T (r_world X)" "T < fuel" "\<not> parser_panics X" "\<not> clock_panics X"
    and "wf_message (r_unicode X) q"
  obtains code rs s' where "handle_query L X fuel (DnsMessage_serialize q) s
      = (Some (Ok (DnsMessage_serialize (answer_message q code rs))), s')"
    "code \<in> (if questions q = [] then {FormatError} else {NoError, ServerFailure, NameError})"
    "code \<noteq> NoError \<longrightarrow> rs = []"
proof -
  define q' where "q' = q\<lparr>header := header_with_counts q\<rparr>"
  have p: "DnsMessage_parse (r_unicode X) (DnsMessage_serialize q) = Ok q'" "questions q' = questions q"
    using wf_parsed [OF assms(8)] by (simp_all add: q'_def)
  have same: "DnsMessage_serialize (answer_message q code rs) = DnsMessage_serialize (answer_message q' code rs)"
    for code rs unfolding q'_def by (rule answer_message_counts [symmetric])
  note found = that [unfolded same]
  show ?thesis
  proof (cases "questions q = []")
    case True
    then show ?thesis
      using p by (intro found [of FormatError "[]" s])
        (simp_all add: handle_query_def retR_def make_error_response_def answer_message_def make_response_def)
  next
    case False
    let ?n = "q_name (hd (questions q))" and ?t = "q_type (hd (questions q))"
    obtain x s' where r: "resolve L X fuel ?n ?t s = (x, s')" by fastforce
    have "fst (resolve L X fuel ?n ?t s) \<noteq> None"
      using ends_resolve [OF assms(4,5), where b = 0 and L = L and n = ?n and t = ?t] by (simp add: ends_def)
    moreover have "x \<noteq> Some Panic" using resolve_in_service(3) [OF assms(1-3)] r assms(6,7) by blast
    ultimately obtain y where y: "x = Some y" "y \<noteq> Panic" using r by auto
    show ?thesis
    proof (cases y)
      case (Ok rs)
      then show ?thesis
        using y r p False by (intro found [of NoError rs s'])
          (simp_all add: handle_query_def Let_def matchR_def retR_def answer_message_def make_response_def)
    next
      case (Err e)
      then show ?thesis
        using y r p False resolve_in_service(2) [OF assms(1-3), of fuel ?n ?t e s'] by (intro found [of e "[]" s'])
          (auto simp: handle_query_def Let_def matchR_def retR_def answer_message_def make_response_def)
    qed (use y in simp)
  qed
qed





text \<open>
  C13. The size of UDP replies: at most 512 bytes, unless the questions alone need more; a reply
  that is cut carries the TC flag, the questions and no record.
\<close>

theorem udp_reply_size:
  assumes "udp_task L X fuel d s = (Some (Ok (Some b)), s')"
  shows "length b \<le> 512 \<or> (\<exists>m. b = DnsMessage_serialize m \<and> truncated (header m) \<and>
    answers m = [] \<and> authorities m = [] \<and> additional m = [] \<and>
    length b = 12 + sum_list (map (\<lambda>q. length (DnsName_to_wire (q_name q)) + 4) (questions m)))"
  using assms
proof (cases rule: udp_task_Ok)
  case (2 b0 m)
  let ?m = "m\<lparr>header := (header m)\<lparr>truncated := True\<rparr>, answers := [], authorities := [], additional := []\<rparr>"
  have "length b = 12 + sum_list (map (\<lambda>q. length (DnsName_to_wire (q_name q)) + 4) (questions m))"
    by (simp add: 2(4) DnsMessage_serialize_def length_concat comp_def DnsQuestion_serialize_def)
  then show ?thesis using 2(4) by (intro disjI2 exI [of _ ?m]) simp
qed simp

theorem udp_reply_size_witness:
  "length (DnsMessage_serialize reply_message) \<le> 512 \<or>
     (\<exists>m. DnsMessage_serialize reply_message = DnsMessage_serialize m \<and> truncated (header m))"
  using udp_reply_size [OF query_answered] by blast

text \<open>
  C14. TCP framing: a connection gets nothing, or the length of the reply in two bytes, or that
  length and the reply; the reply is that of the query whose length came first, and for a reply
  under 65536 bytes the two bytes, read back, are its length.
\<close>

theorem tcp_reply_framing:
  assumes "tcp_task L X fuel stream s = (Some (Ok out), s')"
  shows "out = [] \<or> (\<exists>msg b s1. 2 \<le> length stream \<and>
    (u16_at stream 0 :: (u16, DnsError) res) = Ok (of_nat (length msg)) \<and>
    take (length msg) (drop 2 stream) = msg \<and>
    handle_query L X fuel msg s = (Some (Ok b), s1) \<and>
    (out = [u16_to_be_bytes (of_nat (length b))] \<or> out = [u16_to_be_bytes (of_nat (length b)), b]) \<and>
    (length b < 65536 \<longrightarrow>
      u16_at (hd out) 0 = (Ok (of_nat (length b)) :: (u16, DnsError) res) \<and>
      unat (of_nat (length b) :: u16) = length b))"
proof (cases "out = []")
  case False
  obtain l rest where l: "read_exact 2 stream = Some (l, rest)"
    using assms False by (cases "read_exact 2 stream") (auto simp: tcp_task_def retR_def)
  then have ls: "l = take 2 stream" "rest = drop 2 stream" "2 \<le> length stream"
    by (auto simp: read_exact_def split: if_splits)
  then obtain x y ys where st: "stream = x # y # ys" by (auto simp: numeral_2_eq_2 Suc_le_length_iff)
  let ?w = "u16_from_be_bytes x y"
  have w: "(u16_at l 0 :: (u16, DnsError) res) = Ok ?w" "(u16_at stream 0 :: (u16, DnsError) res) = Ok ?w"
    using ls st by (simp_all add: u16_at_def u8_at_def)
  have n: "\<not> unat ?w > 65535" using unat_u16_less [of ?w] by linarith
  obtain msg rest' where m: "read_exact (unat ?w) rest = Some (msg, rest')"
    using assms False l w(1) n
    by (cases "read_exact (unat ?w) rest") (auto simp: tcp_task_def retR_def Let_def)
  then have ms: "length msg = unat ?w" "take (length msg) (drop 2 stream) = msg"
    using ls by (auto simp: read_exact_def split: if_splits)
  obtain h s1 where h: "handle_query L X fuel msg s = (h, s1)" by fastforce
  obtain b where b: "h = Some (Ok b)"
    using assms False l w(1) n m h
    by (cases h; cases "the h") (auto simp: tcp_task_def retR_def matchR_def Let_def)
  have "out = [u16_to_be_bytes (of_nat (length b))] \<or> out = [u16_to_be_bytes (of_nat (length b)), b]"
    using assms False l w(1) n m h b
    by (auto simp: tcp_task_def retR_def matchR_def Let_def split: if_splits)
  moreover have "u16_at (u16_to_be_bytes v) 0 = (Ok v :: (u16, DnsError) res)" for v
    using u16_at_be [of v "[]"] by simp
  moreover have "(u16_at stream 0 :: (u16, DnsError) res) = Ok (of_nat (length msg))"
    by (simp add: w(2) ms(1))
  ultimately show ?thesis using ls(3) ms(2) h b by auto
qed simp

theorem tcp_reply_framing_witness:
  "\<exists>msg s1. handle_query list_lru (sample_resolver [bare_zone]) 0 msg first_state
     = (Some (Ok (DnsMessage_serialize reply_message)), s1)"
proof -
  have "tcp_task list_lru (sample_resolver [bare_zone]) 0 ([0, 19] @ query_bytes) first_state
      = (Some (Ok [u16_to_be_bytes 19, DnsMessage_serialize reply_message]),
         first_state\<lparr>tick := tick first_state + 2\<rparr>)"
    by (simp add: tcp_task_def read_exact_def query_bytes_length u16_at_def u8_at_def
        u16_from_be_bytes_def matchR_def query_handled Let_def retR_def reply_length
        sample_writes)
  from tcp_reply_framing [OF this] show ?thesis by auto
qed

text \<open>
  C17. DNS over HTTPS and plain DNS answer alike: for the same bytes in the same state, the HTTP
  handler returns, with status 200 and the DNS message type, exactly the reply of the plain
  server; where the plain server has an error, a panic or no end, so has the handler; and the
  final state is the same.
\<close>

theorem doh_reply_is_dns_reply:
  "(case handle_query L X fuel data s of
     (Some (Ok b), s') \<Rightarrow> \<exists>resp. process_dns_query L X fuel data s = (Some (Ok resp), s') \<and>
       resp_body resp = b \<and> status resp = 200 \<and>
       hd (resp_headers resp) = (lit ''content-type'', DNS_MESSAGE_TYPE)
   | (Some (Err _), s') \<Rightarrow> process_dns_query L X fuel data s = (Some (Err ()), s')
   | (Some Panic, s') \<Rightarrow> process_dns_query L X fuel data s = (Some Panic, s')
   | (None, s') \<Rightarrow> process_dns_query L X fuel data s = (None, s'))"
proof (cases "DnsMessage_parse (r_unicode X) data")
  case (Ok q)
  show ?thesis
  proof (cases "questions q = []")
    case False
    obtain x s' where r: "resolve L X fuel (q_name (hd (questions q))) (q_type (hd (questions q))) s
        = (x, s')" by fastforce
    show ?thesis
      using False
      by (cases x; cases "the x"; cases "the x = Ok []")
        (auto simp: handle_query_def process_dns_query_def Ok Let_def matchR_def r retR_def
          make_response_def)
  qed (simp add: handle_query_def process_dns_query_def Ok retR_def)
qed (simp_all add: handle_query_def process_dns_query_def failR_def panicR_def)

text \<open>
  C16. GET and POST are two ways to the same answer: a GET request in whose query string some
  parameter is called \<open>dns\<close>, the first such one with a value that the base64 decoder takes to some
  bytes, is answered as a POST request with those bytes as its body, in every state. Parameters
  before it may have any other name, parameters after it any name.
\<close>

theorem doh_get_is_post:
  assumes "base64_decode p = Some bs"
    and "uri_query g = Some (join [38] (before @ [lit ''dns='' @ p] @ after))"
      "\<forall>x \<in> set (before @ [p] @ after). 38 \<notin> set x"
      "\<forall>x \<in> set before. \<forall>v. split_first 61 x \<noteq> Some (lit ''dns'', v)"
    and "http_method_of g = GET" "path g = lit ''/dns-query''"
    and "http_method_of q = POST" "path q = lit ''/dns-query''" "content_type q = Some DNS_MESSAGE_TYPE"
      "body q = Some bs"
  shows "handle_request base64_decode L X fuel g = handle_request base64_decode L X fuel q"
proof -
  have "split_on (38 :: u8) (join [38] (before @ [lit ''dns='' @ p] @ after)) = before @ [lit ''dns='' @ p] @ after"
    using assms(3) by (intro split_on_join) (auto simp: lit_def)
  moreover have "find_dns (xs @ [lit ''dns='' @ p] @ after) = Some p"
    if "\<forall>x \<in> set xs. \<forall>v. split_first 61 x \<noteq> Some (lit ''dns'', v)" for xs
    using that by (induction xs) (auto simp: lit_def split: option.splits)
  ultimately have "handle_get base64_decode L X fuel g = process_dns_query L X fuel bs"
    using assms(4) by (simp add: handle_get_def assms(1,2) unwrap_or_def)
  moreover have "handle_post L X fuel q = process_dns_query L X fuel bs"
    by (simp add: handle_post_def assms(9,10) unwrap_or_def)
  ultimately show ?thesis by (simp add: handle_request_def assms(5-8))
qed

text \<open>A request, for examples.\<close>

definition sample_http :: "http_method \<Rightarrow> rstr \<Rightarrow> http_request" where
  "sample_http m p = \<lparr>http_method_of = m, path = p, uri_query = Some (lit ''a=b&dns=c&d''),
     content_type = Some DNS_MESSAGE_TYPE, body = Some query_bytes\<rparr>"

definition sample_base64 :: "rstr \<Rightarrow> bytes option" where
  "sample_base64 p = (if p = lit ''c'' then Some query_bytes else None)"

theorem doh_get_is_post_witness:
  "handle_request sample_base64 list_lru loop_resolver 0 (sample_http GET (lit ''/dns-query''))
    = handle_request sample_base64 list_lru loop_resolver 0 (sample_http POST (lit ''/dns-query''))"
  by (rule doh_get_is_post [where p = "lit ''c''" and before = "[lit ''a=b'']" and after = "[lit ''d'']"])
    (simp_all add: sample_http_def sample_base64_def lit_def)

text \<open>The bytes of the DNS query a request for \<open>/dns-query\<close> carries.\<close>

definition carried :: "(rstr \<Rightarrow> bytes option) \<Rightarrow> http_request \<Rightarrow> bytes option" where
  "carried base64_decode req =
     (if http_method_of req = GET
      then Option.bind (find_dns (split_on (38 :: u8) (unwrap_or (uri_query req) []))) base64_decode
      else body req)"

text \<open>A request the handlers of \<open>/dns-query\<close> take, and the status of a query.\<close>

lemma handle_request_dns:
  assumes "path req = lit ''/dns-query''"
    and "http_method_of req = GET \<or> http_method_of req = POST \<and> content_type req = Some DNS_MESSAGE_TYPE"
  shows "handle_request base64_decode L X fuel req =
    matchR (case carried base64_decode req of None \<Rightarrow> failR () | Some bs \<Rightarrow> process_dns_query L X fuel bs)
      retR (\<lambda>_. retR \<lparr>status = 500, resp_headers = [], resp_body = lit ''Internal Server Error''\<rparr>)"
proof (cases "http_method_of req = GET")
  case True
  then have "handle_get base64_decode L X fuel req =
      (case carried base64_decode req of None \<Rightarrow> failR () | Some bs \<Rightarrow> process_dns_query L X fuel bs)"
    by (simp add: carried_def handle_get_def split: option.split)
  then show ?thesis using True assms(1) by (simp add: handle_request_def)
next
  case False
  then have "handle_post L X fuel req =
      (case carried base64_decode req of None \<Rightarrow> failR () | Some bs \<Rightarrow> process_dns_query L X fuel bs)"
    using assms(2) by (simp add: carried_def handle_post_def unwrap_or_def split: option.split)
  then show ?thesis using False assms by (simp add: handle_request_def)
qed

lemma handle_request_other:
  assumes "\<not> (path req = lit ''/dns-query'' \<and> (http_method_of req = GET \<or> http_method_of req = POST))"
    and "\<not> (path req = lit ''/health'' \<and> http_method_of req = GET)"
  shows "handle_request base64_decode L X fuel req s =
    (Some (Ok \<lparr>status = 404, resp_headers = [], resp_body = lit ''Not Found''\<rparr>), s)"
proof -
  have "\<not> (http_method_of req = GET \<and> path req = lit ''/dns-query'')"
    "\<not> (http_method_of req = POST \<and> path req = lit ''/dns-query'')"
    "\<not> (http_method_of req = GET \<and> path req = lit ''/health'')"
    using assms by auto
  then show ?thesis
    unfolding handle_request_def by (simp only: if_False matchR_def retR_def) simp
qed

text \<open>
  C15. The status of every HTTP response. Without a change of state: a GET for \<open>/health\<close> gives 200;
  a POST to \<open>/dns-query\<close> whose content type is not that of DNS messages gives 415; any method and
  path but these and a GET for \<open>/dns-query\<close> give 404; a GET without a \<open>dns\<close> parameter or with one that
  does not decode, and a POST whose body cannot be read, give 500, and so does a query that is
  no DNS message. A DNS message gives 200 whenever its resolution has a result, be it an error,
  and nothing else; a panic of the parser or of the resolution is a panic of the request.
\<close>

theorem doh_statuses:
  fixes s :: "'c rstate" and L :: "'c cache_ops" and X :: resolver and fuel :: nat
    and req :: http_request and base64_decode :: "rstr \<Rightarrow> bytes option"
  defines "dns \<equiv> path req = lit ''/dns-query'' \<and> (http_method_of req = GET \<or> http_method_of req = POST)"
    and "health \<equiv> path req = lit ''/health'' \<and> http_method_of req = GET"
    and "unsupported \<equiv> http_method_of req = POST \<and> content_type req \<noteq> Some DNS_MESSAGE_TYPE"
    and "run \<equiv> handle_request base64_decode L X fuel req s"
    and "plain_reply \<equiv> \<lambda>st text. \<lparr>status = st, resp_headers = [], resp_body = lit text\<rparr>"
  shows "(\<not> dns \<and> \<not> health \<longrightarrow> run = (Some (Ok (plain_reply 404 ''Not Found'')), s)) \<and>
    (health \<longrightarrow> run = (Some (Ok (plain_reply 200 ''OK'')), s)) \<and>
    (dns \<and> unsupported \<longrightarrow> run = (Some (Ok (plain_reply 415 ''Expected application/dns-message'')), s)) \<and>
    (dns \<and> \<not> unsupported \<longrightarrow>
       (case carried base64_decode req of
          None \<Rightarrow> run = (Some (Ok (plain_reply 500 ''Internal Server Error'')), s)
        | Some bs \<Rightarrow>
            (case DnsMessage_parse (r_unicode X) bs of
               Err _ \<Rightarrow> run = (Some (Ok (plain_reply 500 ''Internal Server Error'')), s)
             | Panic \<Rightarrow> run = (Some Panic, s)
             | Ok q \<Rightarrow>
                 if questions q = [] then \<exists>resp. run = (Some (Ok resp), s) \<and> status resp = 200
                 else
                   (case resolve L X fuel (q_name (hd (questions q))) (q_type (hd (questions q))) s of
                      (None, s') \<Rightarrow> run = (None, s')
                    | (Some Panic, s') \<Rightarrow> run = (Some Panic, s')
                    | (_, s') \<Rightarrow> \<exists>resp. run = (Some (Ok resp), s') \<and> status resp = 200))))"
proof -
  have "lit ''/health'' \<noteq> lit ''/dns-query''" by (simp add: lit_def)
  then have healthy: "run = (Some (Ok (plain_reply 200 ''OK'')), s)" if health
    using that by (simp add: health_def run_def plain_reply_def handle_request_def matchR_def retR_def)
  have missing: "run = (Some (Ok (plain_reply 404 ''Not Found'')), s)" if "\<not> dns" "\<not> health"
    using that unfolding dns_def health_def run_def plain_reply_def by (rule handle_request_other)
  have "unwrap_or (content_type req) [] = DNS_MESSAGE_TYPE \<longleftrightarrow> content_type req = Some DNS_MESSAGE_TYPE"
    by (auto simp: unwrap_or_def DNS_MESSAGE_TYPE_def lit_def split: option.splits)
  then have refused: "run = (Some (Ok (plain_reply 415 ''Expected application/dns-message'')), s)"
    if "dns" "unsupported"
    using that by (simp add: dns_def unsupported_def run_def plain_reply_def handle_request_def
        handle_post_def matchR_def retR_def)
  have run: "run = matchR (case carried base64_decode req of
        None \<Rightarrow> failR () | Some bs \<Rightarrow> process_dns_query L X fuel bs)
      retR (\<lambda>_. retR (plain_reply 500 ''Internal Server Error'')) s" if "dns" "\<not> unsupported"
    unfolding run_def plain_reply_def
    by (subst handle_request_dns) (use that in \<open>auto simp: dns_def unsupported_def\<close>)
  show ?thesis
  proof (intro conjI impI; (elim conjE)?)
    assume "dns" "\<not> unsupported"
    note run = run [OF this]
    show "case carried base64_decode req of
          None \<Rightarrow> run = (Some (Ok (plain_reply 500 ''Internal Server Error'')), s)
        | Some bs \<Rightarrow>
            (case DnsMessage_parse (r_unicode X) bs of
               Err _ \<Rightarrow> run = (Some (Ok (plain_reply 500 ''Internal Server Error'')), s)
             | Panic \<Rightarrow> run = (Some Panic, s)
             | Ok q \<Rightarrow>
                 if questions q = [] then \<exists>resp. run = (Some (Ok resp), s) \<and> status resp = 200
                 else
                   (case resolve L X fuel (q_name (hd (questions q))) (q_type (hd (questions q))) s of
                      (None, s') \<Rightarrow> run = (None, s')
                    | (Some Panic, s') \<Rightarrow> run = (Some Panic, s')
                    | (_, s') \<Rightarrow> \<exists>resp. run = (Some (Ok resp), s') \<and> status resp = 200))"
    proof (cases "carried base64_decode req")
      case (Some bs)
      show ?thesis
      proof (cases "DnsMessage_parse (r_unicode X) bs")
        case (Ok q)
        then show ?thesis
          by (simp add: run Some process_dns_query_def Let_def matchR_def retR_def
              split: option.split res.split prod.split)
      qed (simp_all add: run Some process_dns_query_def matchR_def retR_def failR_def panicR_def)
    qed (simp add: run matchR_def failR_def retR_def)
  qed (rule missing healthy refused; assumption)+
qed

theorem doh_statuses_witness:
  "handle_request (\<lambda>_. None) list_lru loop_resolver 0 (sample_http OtherMethod (lit ''/dns-query'')) first_state
     = (Some (Ok \<lparr>status = 404, resp_headers = [], resp_body = lit ''Not Found''\<rparr>), first_state) \<and>
   (\<exists>resp. handle_request (\<lambda>_. None) list_lru (sample_resolver [bare_zone]) 0
        (sample_http POST (lit ''/dns-query'')) first_state = (Some (Ok resp), first_state) \<and> status resp = 200)"
proof
  show "handle_request (\<lambda>_. None) list_lru loop_resolver 0 (sample_http OtherMethod (lit ''/dns-query'')) first_state
     = (Some (Ok \<lparr>status = 404, resp_headers = [], resp_body = lit ''Not Found''\<rparr>), first_state)"
    using doh_statuses [of "sample_http OtherMethod (lit ''/dns-query'')" "\<lambda>_. None" list_lru loop_resolver 0 first_state]
    by (auto simp: sample_http_def lit_def)
  have "carried (\<lambda>_. None) (sample_http POST (lit ''/dns-query'')) = Some query_bytes"
    by (simp add: carried_def sample_http_def)
  then show "\<exists>resp. handle_request (\<lambda>_. None) list_lru (sample_resolver [bare_zone]) 0
      (sample_http POST (lit ''/dns-query'')) first_state = (Some (Ok resp), first_state) \<and> status resp = 200"
    using doh_statuses [of "sample_http POST (lit ''/dns-query'')" "\<lambda>_. None" list_lru
        "sample_resolver [bare_zone]" 0 first_state]
    by (simp add: sample_unicode query_bytes_parsed)
      (simp add: sample_http_def sample_query_def DnsQuestion_new_def bare_resolves)
qed

text \<open>
  What the server starts with: zones that are typed, each made from a definition of the zone
  file, none when there is no file or it cannot be read, and the empty cache of the configured
  size, from which requests are served.
\<close>

theorem start_server_sound:
  assumes "start_server L U C W read toml config = Ok (X, s)"
  shows "list_all zone_typed (r_zones X) \<and> serves B L X (cache_size config) s \<and>
    (zones_file config = None \<or> (\<exists>f. zones_file config = Some f \<and> read f = None) \<longrightarrow> r_zones X = [])"
proof -
  obtain zs where z: "load_zones U read toml config = Ok zs" "r_zones X = zs"
    "s = fresh_state L (cache_size config)"
    using assms by (auto simp: start_server_def)
  have "list_all zone_typed (r_zones X)" using load_zones_typed [OF z(1)] z(2) by simp
  moreover have "serves B L X (cache_size config) s" unfolding z(3) by (rule serves_start)
  moreover have "r_zones X = []"
    if "zones_file config = None \<or> (\<exists>f. zones_file config = Some f \<and> read f = None)"
    using z(1,2) that by (auto simp: load_zones_def)
  ultimately show ?thesis by blast
qed

theorem start_server_sound_witness:
  "\<exists>X s. start_server list_lru plain trusting loop_world (\<lambda>_. None) (\<lambda>_. Err []) Config_default = Ok (X, s) \<and>
     r_zones X = []"
proof -
  have "\<exists>X s. start_server list_lru plain trusting loop_world (\<lambda>_. None) (\<lambda>_. Err []) Config_default = Ok (X, s)"
    by (simp add: start_server_def load_zones_def Config_default_def)
  then show ?thesis using start_server_sound by (fastforce simp: Config_default_def)
qed

end
